theory Spec2Isabelle
  imports Main "HOL-Library.Word" "HOL-Library.Multiset" "HOL-Library.AList"
begin

unbundle bit_operations_syntax

section \<open>Bytes, strings and big-endian integers\<close>

text \<open>
  A Go \<^verbatim>\<open>[]byte\<close> and every byte stream is a list of 8-bit words. A Go \<^verbatim>\<open>string\<close> is a
  sequence of bytes too; it is modelled as a HOL \<^typ>\<open>string\<close> (a list of 8-bit characters),
  and the two conversions below are the Go conversions \<^verbatim>\<open>[]byte(s)\<close> and \<^verbatim>\<open>string(b)\<close>.
\<close>

type_synonym byte = "8 word"
type_synonym u16 = "16 word"
type_synonym u32 = "32 word"
type_synonym u64 = "64 word"

definition byte_of_char :: "char \<Rightarrow> byte" where
  "byte_of_char c = of_nat (of_char c)"

definition char_of_byte :: "byte \<Rightarrow> char" where
  "char_of_byte b = char_of (unat b)"

definition bytes_of :: "string \<Rightarrow> byte list" where
  "bytes_of s = map byte_of_char s"

definition string_of :: "byte list \<Rightarrow> string" where
  "string_of bs = map char_of_byte bs"

text \<open>\<^verbatim>\<open>encoding/binary\<close> with \<^verbatim>\<open>binary.BigEndian\<close>: most significant byte first.\<close>

definition be16 :: "u16 \<Rightarrow> byte list" where
  "be16 w = [ucast (drop_bit 8 w), ucast w]"

definition be32 :: "u32 \<Rightarrow> byte list" where
  "be32 w = [ucast (drop_bit 24 w), ucast (drop_bit 16 w), ucast (drop_bit 8 w), ucast w]"

definition be64 :: "u64 \<Rightarrow> byte list" where
  "be64 w = [ucast (drop_bit 56 w), ucast (drop_bit 48 w), ucast (drop_bit 40 w),
             ucast (drop_bit 32 w), ucast (drop_bit 24 w), ucast (drop_bit 16 w),
             ucast (drop_bit 8 w), ucast w]"

text \<open>Reading a big-endian unsigned integer of any width from a list of bytes.\<close>

definition be_val :: "byte list \<Rightarrow> 'a::len word" where
  "be_val bs = foldl (\<lambda>acc b. push_bit 8 acc OR ucast b) 0 bs"

text \<open>Cutting a byte list into consecutive chunks of \<open>k\<close> bytes, \<open>n\<close> of them.\<close>

fun chunks :: "nat \<Rightarrow> nat \<Rightarrow> byte list \<Rightarrow> byte list list" where
  "chunks k 0 bs = []"
| "chunks k (Suc n) bs = take k bs # chunks k n (drop k bs)"

section \<open>Tags (tag.go)\<close>

text \<open>
  Modelled from the spec: the type codes \<^verbatim>\<open>RPM_*_TYPE\<close> are declared in the tag registry,
  a file of the package that is not among the sources; the spec gives
  CHAR=1, INT8=2, INT16=3, INT32=4, INT64=5, STRING=6, BIN=7, STRING_ARRAY=8, I18NSTRING=9.
\<close>

definition RPM_CHAR_TYPE :: u32 where "RPM_CHAR_TYPE = 1"
definition RPM_INT8_TYPE :: u32 where "RPM_INT8_TYPE = 2"
definition RPM_INT16_TYPE :: u32 where "RPM_INT16_TYPE = 3"
definition RPM_INT32_TYPE :: u32 where "RPM_INT32_TYPE = 4"
definition RPM_INT64_TYPE :: u32 where "RPM_INT64_TYPE = 5"
definition RPM_STRING_TYPE :: u32 where "RPM_STRING_TYPE = 6"
definition RPM_BIN_TYPE :: u32 where "RPM_BIN_TYPE = 7"
definition RPM_STRING_ARRAY_TYPE :: u32 where "RPM_STRING_ARRAY_TYPE = 8"
definition RPM_I18NSTRING_TYPE :: u32 where "RPM_I18NSTRING_TYPE = 9"

definition tagSize :: nat where "tagSize = 16"

text \<open>\<^verbatim>\<open>type tagHeader struct { Tag TagType; Type, Offset, Count uint32 }\<close>\<close>

record tagHeader =
  Tag :: u32
  Type :: u32
  Offset :: u32
  Count :: u32

text \<open>
  The implementations of the interface \<^verbatim>\<open>tagData\<close>: \<^verbatim>\<open>*tagBytes{b, count}\<close> (the buffer
  pointer \<^verbatim>\<open>b\<close> is nil until \<^verbatim>\<open>ReadFrom\<close> allocates it), \<^verbatim>\<open>*tagString{data, len}\<close>,
  the three integer slices, \<^verbatim>\<open>*bytes.Buffer\<close> (which \<^verbatim>\<open>Tag.Bytes\<close> also accepts), and the nil
  interface of a tag that has no data yet.
\<close>

datatype tagData =
    TagBytes "byte list option" u32
  | TagString "string list" nat
  | TagUint16 "u16 list"
  | TagUint32 "u32 list"
  | TagUint64 "u64 list"
  | Buffer "byte list"
  | NilData

text \<open>\<^verbatim>\<open>type Tag struct { tagHeader; idx int; off int; data tagData }\<close>\<close>

record tag = tagHeader +
  idx :: nat
  toff :: "64 word"
  data :: tagData

text \<open>A run-time panic of the Go program is a value of the model.\<close>

datatype panic = NilDereference | IndexOutOfRange

text \<open>
  \<^verbatim>\<open>r, ok := t.data.(*tagString)\<close> leaves \<^verbatim>\<open>r\<close> a nil pointer when the assertion fails; the
  next expression, \<^verbatim>\<open>r.data\<close>, dereferences it.
\<close>

definition StringData :: "'a tag_scheme \<Rightarrow> panic + (string \<times> bool)" where
  "StringData t = (case data t of
      TagString d l \<Rightarrow> (if length d = 0 then Inr ('''', False) else Inr (d ! 0, True))
    | _ \<Rightarrow> Inl NilDereference)"

definition StringArray :: "'a tag_scheme \<Rightarrow> panic + (string list \<times> bool)" where
  "StringArray t = (case data t of
      TagString d l \<Rightarrow> Inr (d, True)
    | _ \<Rightarrow> Inl NilDereference)"

definition Int16 :: "'a tag_scheme \<Rightarrow> panic + (u16 list \<times> bool)" where
  "Int16 t = (case data t of TagUint16 r \<Rightarrow> Inr (r, True) | _ \<Rightarrow> Inr ([], False))"

definition Int32 :: "'a tag_scheme \<Rightarrow> panic + (u32 list \<times> bool)" where
  "Int32 t = (case data t of TagUint32 r \<Rightarrow> Inr (r, True) | _ \<Rightarrow> Inr ([], False))"

definition Int64 :: "'a tag_scheme \<Rightarrow> panic + (u64 list \<times> bool)" where
  "Int64 t = (case data t of TagUint64 r \<Rightarrow> Inr (r, True) | _ \<Rightarrow> Inr ([], False))"

definition Bytes :: "'a tag_scheme \<Rightarrow> panic + (byte list \<times> bool)" where
  "Bytes t = (case data t of
      Buffer r \<Rightarrow> Inr (r, True)
    | TagBytes (Some b) c \<Rightarrow> Inr (b, True)
    | TagBytes None c \<Rightarrow> Inl NilDereference
    | _ \<Rightarrow> Inr ([], False))"

section \<open>Errors\<close>

text \<open>
  The error values of package \<^verbatim>\<open>rpm\<close> (\<^verbatim>\<open>errors.New\<close>), the two errors of package \<^verbatim>\<open>io\<close>
  that \<^verbatim>\<open>io.ReadFull\<close> and \<^verbatim>\<open>binary.Read\<close> return on a short stream, the three error values
  of package \<^verbatim>\<open>scpio\<close>, and the error of \<^verbatim>\<open>hex.Decode\<close>.
\<close>

datatype errname =
    errTagType | errTagSize | errHeaderOverflow | errInvalidOffset | errNoTags | errDataLen
  | errInvalidLead | errBadAlign | errInvalidHeader | errUnexpectedEOF | errOffsetOOB
  | io_EOF | io_ErrUnexpectedEOF
  | scpio_errUnexpectedEOF | errBadMagic | errInvalidTrailer | hex_InvalidByteError byte

text \<open>
  \<^verbatim>\<open>tagError{t, err}\<close> and \<^verbatim>\<open>offsetError{off, err}\<close> wrap an error; a panic is a result of
  its own. \<open>Is\<close> is \<^verbatim>\<open>errors.Is\<close>: \<^verbatim>\<open>offsetError\<close> has an \<^verbatim>\<open>Unwrap\<close> method, \<^verbatim>\<open>tagError\<close>
  an \<^verbatim>\<open>Is\<close> method that compares the wrapped error with the target.
\<close>

datatype error =
    New errname
  | TagError tagHeader error
  | OffsetError "64 word" error
  | Panic panic

fun Is :: "error \<Rightarrow> errname \<Rightarrow> bool" where
  "Is (New e) target = (e = target)"
| "Is (TagError t e) target = (e = New target)"
| "Is (OffsetError n e) target = Is e target"
| "Is (Panic p) target = False"

definition bindE :: "error + 'a \<Rightarrow> ('a \<Rightarrow> error + 'b) \<Rightarrow> error + 'b" where
  "bindE x f = (case x of Inl e \<Rightarrow> Inl e | Inr v \<Rightarrow> f v)"

section \<open>Tag values: length and serialization (tag.go)\<close>

text \<open>
  \<^verbatim>\<open>Len()\<close>. For \<^verbatim>\<open>*tagString\<close> the field \<^verbatim>\<open>len\<close> caches the sum of the string lengths, each
  plus one, and is returned when it is not zero. A method call on the nil interface or through
  the nil buffer pointer panics.
\<close>

fun Len :: "tagData \<Rightarrow> panic + nat" where
  "Len (TagBytes (Some b) c) = Inr (length b)"
| "Len (TagBytes None c) = Inl NilDereference"
| "Len (TagString d l) = Inr (if l \<noteq> 0 then l else sum_list (map (\<lambda>v. length v + 1) d))"
| "Len (TagUint16 t) = Inr (length t * 2)"
| "Len (TagUint32 t) = Inr (length t * 4)"
| "Len (TagUint64 t) = Inr (length t * 8)"
| "Len (Buffer b) = Inr (length b)"
| "Len NilData = Inl NilDereference"

text \<open>
  \<^verbatim>\<open>tagString.Len()\<close> also writes: when \<^verbatim>\<open>t.len\<close> is zero it adds the length of every string
  plus one to \<^verbatim>\<open>t.len\<close>. \<open>Len_after\<close> is the value as a call of \<^verbatim>\<open>Len()\<close> leaves it.
\<close>

fun Len_after :: "tagData \<Rightarrow> tagData" where
  "Len_after (TagString d l) =
     TagString d (if l \<noteq> 0 then l else sum_list (map (\<lambda>v. length v + 1) d))"
| "Len_after d = d"

text \<open>
  \<^verbatim>\<open>WriteTo(w)\<close> of a tag value, as the bytes it appends to \<^verbatim>\<open>w\<close>: integers big-endian,
  each string followed by a NUL byte (\<^verbatim>\<open>v+string(0)\<close>), a byte blob verbatim. The writer is an
  in-memory buffer: it takes every byte and never fails.
\<close>

fun data_WriteTo :: "tagData \<Rightarrow> panic + byte list" where
  "data_WriteTo (TagBytes (Some b) c) = Inr b"
| "data_WriteTo (TagBytes None c) = Inl NilDereference"
| "data_WriteTo (TagString d l) = Inr (concat (map (\<lambda>v. bytes_of v @ [0]) d))"
| "data_WriteTo (TagUint16 t) = Inr (concat (map be16 t))"
| "data_WriteTo (TagUint32 t) = Inr (concat (map be32 t))"
| "data_WriteTo (TagUint64 t) = Inr (concat (map be64 t))"
| "data_WriteTo (Buffer b) = Inr b"
| "data_WriteTo NilData = Inl NilDereference"

text \<open>\<^verbatim>\<open>binary.Write(w, binary.BigEndian, t.tagHeader)\<close>: 16 bytes.\<close>

definition th_bytes :: "'a tagHeader_scheme \<Rightarrow> byte list" where
  "th_bytes t = be32 (Tag t) @ be32 (Type t) @ be32 (Offset t) @ be32 (Count t)"

definition th_parse :: "byte list \<Rightarrow> tagHeader" where
  "th_parse bs = \<lparr>Tag = be_val (take 4 bs), Type = be_val (take 4 (drop 4 bs)),
                  Offset = be_val (take 4 (drop 8 bs)), Count = be_val (take 4 (drop 12 bs))\<rparr>"

section \<open>Headers (header.go)\<close>

definition rpmHeaderMagic :: "byte list" where
  "rpmHeaderMagic = [0x8e, 0xad, 0xe8, 0x1, 0x0, 0x0, 0x0, 0x0]"

text \<open>
  \<^verbatim>\<open>type rpmHeaderPre struct { Magic [8]byte; Count uint32; Length uint32 }\<close>; the count field
  is named \<open>HCount\<close> here, apart from the \<open>Count\<close> of a tag.
\<close>

record rpmHeaderPre =
  Magic :: "byte list"
  HCount :: u32
  Length :: u32

text \<open>\<^verbatim>\<open>type Header struct { rpmHeaderPre; off uint32; region *Tag; Tags []*Tag }\<close>\<close>

record Header = rpmHeaderPre +
  off :: u32
  region :: "tag option"
  Tags :: "tag list"

text \<open>\<^verbatim>\<open>new(Header)\<close>: the zero value.\<close>

definition new_Header :: Header where
  "new_Header = \<lparr>Magic = replicate 8 0, HCount = 0, Length = 0, off = 0, region = None, Tags = []\<rparr>"

definition pre_bytes :: "'a rpmHeaderPre_scheme \<Rightarrow> byte list" where
  "pre_bytes p = Magic p @ be32 (HCount p) @ be32 (Length p)"

text \<open>\<^verbatim>\<open>func (hdr *Header) align(n uint32) uint32 { return (hdr.off + n) &^ n }\<close>\<close>

definition align :: "Header \<Rightarrow> u32 \<Rightarrow> u32" where
  "align hdr n = (off hdr + n) AND NOT n"

definition Add :: "Header \<Rightarrow> tag \<Rightarrow> error + Header" where
  "Add hdr t =
    (let hdr1 = (if Type t = RPM_INT16_TYPE then hdr\<lparr>off := align hdr 0x1\<rparr>
                 else if Type t = RPM_INT32_TYPE then hdr\<lparr>off := align hdr 0x3\<rparr>
                 else if Type t = RPM_INT64_TYPE then hdr\<lparr>off := align hdr 0x7\<rparr>
                 else hdr);
         t1 = t\<lparr>Offset := off hdr1\<rparr>
     in case Len (data t1) of
          Inl p \<Rightarrow> Inl (Panic p)
        | Inr n \<Rightarrow>
            Inr (hdr1\<lparr>off := off hdr1 + of_nat n,
                      Tags := Tags hdr1 @ [t1\<lparr>data := Len_after (data t1)\<rparr>]\<rparr>))"

definition new_tag :: "u32 \<Rightarrow> u32 \<Rightarrow> u32 \<Rightarrow> tagData \<Rightarrow> tag" where
  "new_tag tg ty cnt d =
     \<lparr>Tag = tg, Type = ty, Offset = 0, Count = cnt, idx = 0, toff = 0, data = d\<rparr>"

definition addString :: "Header \<Rightarrow> u32 \<Rightarrow> u32 \<Rightarrow> string \<Rightarrow> error + Header" where
  "addString hdr tg t s = Add hdr (new_tag tg t 1 (TagString [s] (length s + 1)))"

definition AddString :: "Header \<Rightarrow> u32 \<Rightarrow> string \<Rightarrow> error + Header" where
  "AddString hdr tg s = addString hdr tg RPM_STRING_TYPE s"

definition AddStringI18N :: "Header \<Rightarrow> u32 \<Rightarrow> string \<Rightarrow> error + Header" where
  "AddStringI18N hdr tg s = addString hdr tg RPM_I18NSTRING_TYPE s"

definition AddStringArray :: "Header \<Rightarrow> u32 \<Rightarrow> string list \<Rightarrow> error + Header" where
  "AddStringArray hdr tg d =
     Add hdr (new_tag tg RPM_STRING_ARRAY_TYPE (of_nat (length d)) (TagString d 0))"

definition AddInt16 :: "Header \<Rightarrow> u32 \<Rightarrow> u16 list \<Rightarrow> error + Header" where
  "AddInt16 hdr tg d = Add hdr (new_tag tg RPM_INT16_TYPE (of_nat (length d)) (TagUint16 d))"

definition AddInt32 :: "Header \<Rightarrow> u32 \<Rightarrow> u32 list \<Rightarrow> error + Header" where
  "AddInt32 hdr tg d = Add hdr (new_tag tg RPM_INT32_TYPE (of_nat (length d)) (TagUint32 d))"

definition AddInt64 :: "Header \<Rightarrow> u32 \<Rightarrow> u64 list \<Rightarrow> error + Header" where
  "AddInt64 hdr tg d = Add hdr (new_tag tg RPM_INT64_TYPE (of_nat (length d)) (TagUint64 d))"

definition AddBin :: "Header \<Rightarrow> u32 \<Rightarrow> byte list \<Rightarrow> error + Header" where
  "AddBin hdr tg d = Add hdr (new_tag tg RPM_BIN_TYPE (of_nat (length d)) (TagBytes (Some d) 0))"

text \<open>\<^verbatim>\<open>SetRegion(tag)\<close>: a region tag of type BIN and count 16, without data yet.\<close>

definition SetRegion :: "Header \<Rightarrow> u32 \<Rightarrow> Header" where
  "SetRegion hdr tg = hdr\<lparr>region := Some (new_tag tg RPM_BIN_TYPE (of_nat tagSize) NilData)\<rparr>"

text \<open>
  \<^verbatim>\<open>setRegion(pre)\<close> materializes the region: its Offset is the data cursor, its value the
  16 bytes of a tag header whose Offset field is \<^verbatim>\<open>uint32(-int32(len(hdr.Tags)+1) * tagSize)\<close>.
\<close>

definition region_value :: "u32 \<Rightarrow> nat \<Rightarrow> tagHeader" where
  "region_value tg n =
     \<lparr>Tag = tg, Type = RPM_BIN_TYPE, Offset = (- of_nat (n + 1)) * of_nat tagSize,
      Count = of_nat tagSize\<rparr>"

definition setRegion :: "Header \<Rightarrow> rpmHeaderPre \<Rightarrow> Header \<times> rpmHeaderPre" where
  "setRegion hdr pre = (case region hdr of
      None \<Rightarrow> (hdr, pre)
    | Some rg \<Rightarrow>
        (hdr\<lparr>region := Some (rg\<lparr>Offset := off hdr,
             data := TagBytes (Some (th_bytes (region_value (Tag rg) (length (Tags hdr))))) 0\<rparr>)\<rparr>,
         pre\<lparr>Length := Length pre + of_nat tagSize, HCount := HCount pre + 1\<rparr>))"

definition writeRegionHeader :: "Header \<Rightarrow> byte list" where
  "writeRegionHeader hdr = (case region hdr of None \<Rightarrow> [] | Some rg \<Rightarrow> th_bytes rg)"

definition writeRegionData :: "Header \<Rightarrow> error + byte list" where
  "writeRegionData hdr = (case region hdr of
      None \<Rightarrow> Inr []
    | Some rg \<Rightarrow> (case data_WriteTo (data rg) of Inl p \<Rightarrow> Inl (Panic p) | Inr bs \<Rightarrow> Inr bs))"

text \<open>
  \<^verbatim>\<open>pad(w, off, cur)\<close> writes \<^verbatim>\<open>zb[:off-cur]\<close>, zero bytes, and refuses an offset below the
  cursor or more than \<^verbatim>\<open>zs = 8\<close> bytes above it.
\<close>

definition zs :: nat where "zs = 8"

definition pad :: "u32 \<Rightarrow> nat \<Rightarrow> error + byte list" where
  "pad offs cur =
     (if unat offs < cur then Inl (New errInvalidOffset)
      else if unat offs - cur > zs then Inl (New errInvalidOffset)
      else Inr (replicate (unat offs - cur) 0))"

text \<open>
  The loop of \<^verbatim>\<open>WriteTo\<close> that writes the padding and the value of each tag, from cursor
  \<open>cur\<close>: the pairs of padding and value written, in order, and the final cursor.
\<close>

fun write_values :: "tag list \<Rightarrow> nat \<Rightarrow> error + ((byte list \<times> byte list) list \<times> nat)" where
  "write_values [] cur = Inr ([], cur)"
| "write_values (v # vs) cur =
    (case pad (Offset v) cur of
       Inl e \<Rightarrow> Inl e
     | Inr z \<Rightarrow>
        (case data_WriteTo (data v) of
           Inl p \<Rightarrow> Inl (Panic p)
         | Inr bs \<Rightarrow>
            (case write_values vs (cur + length z + length bs) of
               Inl e \<Rightarrow> Inl e
             | Inr (rest, c) \<Rightarrow> Inr ((z, bs) # rest, c))))"

definition flat :: "(byte list \<times> byte list) list \<Rightarrow> byte list" where
  "flat ps = concat (map (\<lambda>(z, bs). z @ bs) ps)"

text \<open>
  \<^verbatim>\<open>Header.WriteTo\<close>. \<^verbatim>\<open>sort.Sort(hdr)\<close> is the standard library's sort with
  \<^verbatim>\<open>Less(i, j) = Tags[i].Offset < Tags[j].Offset\<close>; it is not stable, so it is the parameter
  \<open>srt\<close>, and \<open>sorts_by_Offset\<close> is what the library promises of it. The result is the header as
  the call leaves it (tags sorted, region materialized), the bytes written, and the count
  returned.
\<close>

definition sorts_by_Offset :: "(tag list \<Rightarrow> tag list) \<Rightarrow> bool" where
  "sorts_by_Offset srt =
     (\<forall>ts. mset (srt ts) = mset ts \<and> sorted (map Offset (srt ts)))"

definition WriteTo :: "(tag list \<Rightarrow> tag list) \<Rightarrow> Header \<Rightarrow> error + (Header \<times> byte list \<times> 64 word)" where
  "WriteTo srt hdr =
    (if length (Tags hdr) = 0 then Inl (New errNoTags)
     else
      (let pre = \<lparr>Magic = rpmHeaderMagic, HCount = of_nat (length (Tags hdr)), Length = off hdr\<rparr>;
           (hdr1, pre1) = setRegion hdr pre;
           hdr2 = hdr1\<lparr>Tags := srt (Tags hdr1)\<rparr>;
           index = pre_bytes pre1 @ writeRegionHeader hdr1 @ concat (map th_bytes (Tags hdr2))
       in case write_values (Tags hdr2) 0 of
            Inl e \<Rightarrow> Inl e
          | Inr (values, cur) \<Rightarrow>
             (case writeRegionData hdr2 of
                Inl e \<Rightarrow> Inl e
              | Inr rd \<Rightarrow>
                 if length rd + cur \<noteq> unat (Length pre1) then Inl (New errDataLen)
                 else Inr (hdr2, index @ flat values @ rd,
                           ucast (HCount pre1 * of_nat tagSize + Length pre1 + 16)))))"

section \<open>The file index (files.go)\<close>

text \<open>
  \<^verbatim>\<open>filepath.Split\<close> of the standard library, on a system whose separator is \<^verbatim>\<open>/\<close>: the
  path is cut after its last separator; without one the directory part is empty.
\<close>

definition Split :: "string \<Rightarrow> string \<times> string" where
  "Split path = (rev (dropWhile (\<lambda>c. c \<noteq> CHR ''/'') (rev path)),
                 rev (takeWhile (\<lambda>c. c \<noteq> CHR ''/'') (rev path)))"

text \<open>
  \<^verbatim>\<open>type prefixMap struct { s []string; m map[string]int }\<close>. The map is an association
  list that \<^verbatim>\<open>p.m[d] = i\<close> updates, so its keys stay distinct and its length is \<^verbatim>\<open>len(p.m)\<close>.
\<close>

record prefixMap =
  pm_s :: "string list"
  pm_m :: "(string \<times> nat) list"

definition newPrefixMap :: prefixMap where
  "newPrefixMap = \<lparr>pm_s = [], pm_m = []\<rparr>"

definition index :: "prefixMap \<Rightarrow> string \<Rightarrow> prefixMap \<times> string \<times> nat" where
  "index p file =
    (let (d0, f) = Split file;
         d = (if d0 = [] then ''/'' else d0)
     in case map_of (pm_m p) d of
          Some i \<Rightarrow> (p, f, i)
        | None \<Rightarrow>
           (let i = length (pm_m p)
            in (p\<lparr>pm_m := AList.update d i (pm_m p), pm_s := pm_s p @ [d]\<rparr>, f, i)))"

text \<open>
  \<^verbatim>\<open>type FileIndex struct\<close>, field by field (\<open>size32\<close> is the field \<^verbatim>\<open>size\<close>). The slice
  \<^verbatim>\<open>lsize\<close> is compared with nil by \<^verbatim>\<open>Append\<close>, so it is an option: \<open>None\<close> is the nil slice.
\<close>

record FileIndex =
  dirNames :: prefixMap
  dirIndexes :: "u32 list"
  name :: "string list"
  user :: "string list"
  group :: "string list"
  dev :: "u32 list"
  ino :: "u32 list"
  mtime :: "u32 list"
  mode :: "u16 list"
  linkto :: "string list"
  digest :: "string list"
  flags :: "u32 list"
  verify :: "u32 list"
  size32 :: "u32 list"
  lsize :: "u64 list option"
  rpmsize :: u32
  rpmlsize :: u64

definition NewFileIndex :: FileIndex where
  "NewFileIndex = \<lparr>dirNames = newPrefixMap, dirIndexes = [], name = [], user = [], group = [],
     dev = [], ino = [], mtime = [], mode = [], linkto = [], digest = [], flags = [],
     verify = [], size32 = [], lsize = None, rpmsize = 0, rpmlsize = 0\<rparr>"

record File =
  Name :: string
  User :: string
  Group :: string
  Mode :: u16
  LinkTo :: string
  MTime :: u32
  Digest :: string
  NoVerify :: u32
  Size :: u64
  Flags :: u32

definition def :: "string \<Rightarrow> string \<Rightarrow> string \<Rightarrow> string" where
  "def a b d = (if a = b then d else a)"

text \<open>\<^verbatim>\<open>append(s, x)\<close> on a slice that may be nil.\<close>

definition append_nil :: "'a list option \<Rightarrow> 'a \<Rightarrow> 'a list option" where
  "append_nil s x = (case s of None \<Rightarrow> Some [x] | Some xs \<Rightarrow> Some (xs @ [x]))"

definition FileIndex_Add :: "FileIndex \<Rightarrow> File \<Rightarrow> FileIndex" where
  "FileIndex_Add f r =
    (let (p, nm, di) = index (dirNames f) (Name r)
     in f\<lparr>dirNames := p,
          dirIndexes := dirIndexes f @ [of_nat di],
          name := name f @ [nm],
          mode := mode f @ [Mode r],
          mtime := mtime f @ [MTime r],
          verify := verify f @ [NOT (NoVerify r)],
          linkto := linkto f @ [LinkTo r],
          digest := digest f @ [Digest r],
          flags := flags f @ [Flags r],
          user := user f @ [def (User r) [] ''root''],
          group := group f @ [def (Group r) [] ''root''],
          lsize := append_nil (lsize f) (Size r),
          rpmlsize := rpmlsize f + Size r\<rparr>)"

text \<open>
  The identifiers \<^verbatim>\<open>RPMTAG_*\<close> and the two region markers come from the tag registry, which
  is not among the sources, and the spec gives no numbers for them: they are parameters.
\<close>

record tagRegistry =
  HEADER_SIGNATURES :: u32
  HEADER_IMMUTABLE :: u32
  RPMTAG_DIRNAMES :: u32
  RPMTAG_BASENAMES :: u32
  RPMTAG_FILEUSERNAME :: u32
  RPMTAG_FILEGROUPNAME :: u32
  RPMTAG_FILELINKTOS :: u32
  RPMTAG_FILEDIGESTS :: u32
  RPMTAG_DIRINDEXES :: u32
  RPMTAG_FILEMTIMES :: u32
  RPMTAG_FILEMODES :: u32
  RPMTAG_FILEFLAGS :: u32
  RPMTAG_FILEVERIFYFLAGS :: u32
  RPMTAG_LONGFILESIZES :: u32
  RPMTAG_LONGSIZE :: u32
  RPMTAG_FILESIZES :: u32
  RPMTAG_SIZE :: u32

text \<open>The numbers that rpm itself gives these identifiers, for concrete instances.\<close>

definition rpm_registry :: tagRegistry where
  "rpm_registry = \<lparr>HEADER_SIGNATURES = 62, HEADER_IMMUTABLE = 63,
     RPMTAG_DIRNAMES = 1118, RPMTAG_BASENAMES = 1117, RPMTAG_FILEUSERNAME = 1039,
     RPMTAG_FILEGROUPNAME = 1040, RPMTAG_FILELINKTOS = 1036, RPMTAG_FILEDIGESTS = 1035,
     RPMTAG_DIRINDEXES = 1116, RPMTAG_FILEMTIMES = 1034, RPMTAG_FILEMODES = 1030,
     RPMTAG_FILEFLAGS = 1037, RPMTAG_FILEVERIFYFLAGS = 1045, RPMTAG_LONGFILESIZES = 5008,
     RPMTAG_LONGSIZE = 5009, RPMTAG_FILESIZES = 1028, RPMTAG_SIZE = 1009\<rparr>"

definition Append :: "tagRegistry \<Rightarrow> FileIndex \<Rightarrow> Header \<Rightarrow> error + Header" where
  "Append reg f hdr =
    (if length (name f) = 0 then Inr hdr
     else
      bindE (AddStringArray hdr (RPMTAG_DIRNAMES reg) (pm_s (dirNames f))) (\<lambda>hdr.
      bindE (AddStringArray hdr (RPMTAG_BASENAMES reg) (name f)) (\<lambda>hdr.
      bindE (AddStringArray hdr (RPMTAG_FILEUSERNAME reg) (user f)) (\<lambda>hdr.
      bindE (AddStringArray hdr (RPMTAG_FILEGROUPNAME reg) (group f)) (\<lambda>hdr.
      bindE (AddStringArray hdr (RPMTAG_FILELINKTOS reg) (linkto f)) (\<lambda>hdr.
      bindE (AddStringArray hdr (RPMTAG_FILEDIGESTS reg) (digest f)) (\<lambda>hdr.
      bindE (AddInt32 hdr (RPMTAG_DIRINDEXES reg) (dirIndexes f)) (\<lambda>hdr.
      bindE (AddInt32 hdr (RPMTAG_FILEMTIMES reg) (mtime f)) (\<lambda>hdr.
      bindE (AddInt16 hdr (RPMTAG_FILEMODES reg) (mode f)) (\<lambda>hdr.
      bindE (AddInt32 hdr (RPMTAG_FILEFLAGS reg) (flags f)) (\<lambda>hdr.
      bindE (AddInt32 hdr (RPMTAG_FILEVERIFYFLAGS reg) (verify f)) (\<lambda>hdr.
      (case lsize f of
         Some ls \<Rightarrow>
           bindE (AddInt64 hdr (RPMTAG_LONGFILESIZES reg) ls) (\<lambda>hdr.
           AddInt64 hdr (RPMTAG_LONGSIZE reg) [rpmlsize f])
       | None \<Rightarrow>
           bindE (AddInt32 hdr (RPMTAG_FILESIZES reg) (size32 f)) (\<lambda>hdr.
           AddInt32 hdr (RPMTAG_SIZE reg) [rpmsize f]))))))))))))))"

section \<open>Reading from a stream\<close>

text \<open>
  The source of a reader is an in-memory byte sequence (a \<^verbatim>\<open>bytes.Buffer\<close>, as in the tests):
  a read returns as many bytes as are asked for and left. \<^verbatim>\<open>io.ReadFull(r, b)\<close> with
  \<^verbatim>\<open>len(b) = n\<close> returns the next \<open>n\<close> bytes and the rest of the stream, \<^verbatim>\<open>io.EOF\<close> when no byte
  is left, \<^verbatim>\<open>io.ErrUnexpectedEOF\<close> when fewer than \<open>n\<close> are.
\<close>

definition ReadFull :: "byte list \<Rightarrow> nat \<Rightarrow> errname + (byte list \<times> byte list)" where
  "ReadFull s n =
     (if n \<le> length s then Inr (take n s, drop n s)
      else if s = [] then Inl io_EOF else Inl io_ErrUnexpectedEOF)"

section \<open>The SCPIO reader (scpio/reader.go) and the trailer of the writer\<close>

definition newcMagic :: string where "newcMagic = ''070701''"
definition scpioMagic :: string where "scpioMagic = ''07070X''"

text \<open>\<^verbatim>\<open>fmt16\<close>: eight lower-case hexadecimal digits, most significant first.\<close>

definition hexdigit :: "u32 \<Rightarrow> char" where
  "hexdigit d = ''0123456789abcdef'' ! unat d"

definition fmt16 :: "u32 \<Rightarrow> string" where
  "fmt16 n = map (\<lambda>i. hexdigit (drop_bit (i * 4) n AND 0xf)) [7, 6, 5, 4, 3, 2, 1, 0]"

definition newHeader :: "string \<Rightarrow> u32 list \<Rightarrow> byte list" where
  "newHeader magic u = bytes_of (take 6 magic) @ concat (map (\<lambda>n. bytes_of (fmt16 n)) u)"

definition trailer_name :: "byte list" where
  "trailer_name = bytes_of ''TRAILER!!!'' @ [0]"

definition trailer :: "byte list" where
  "trailer = newHeader newcMagic [0, 0, 0, 0, 1, 0, 0, 0, 0, 0, 0, 11, 0] @ trailer_name"

text \<open>
  \<^verbatim>\<open>type Reader struct { r io.Reader; off int }\<close> of package \<^verbatim>\<open>scpio\<close>: the bytes left in
  the stream and the running offset (a 64-bit \<^verbatim>\<open>int\<close>).
\<close>

record scpio_Reader =
  sr :: "byte list"
  soff :: "64 word"

text \<open>\<^verbatim>\<open>r.err(err)\<close> is \<^verbatim>\<open>fmt.Errorf("offset: 0x%x, %v", r.off, err)\<close>.\<close>

datatype scpio_error = Errorf "64 word" errname

text \<open>
  \<^verbatim>\<open>align\<close> discards \<^verbatim>\<open>((off + 3) &^ 3) - off\<close> bytes through an \<^verbatim>\<open>io.LimitedReader\<close>; when
  the stream ends before, \<^verbatim>\<open>lr.N\<close> is not zero and the error is \<^verbatim>\<open>errUnexpectedEOF\<close>.
\<close>

definition scpio_align :: "scpio_Reader \<Rightarrow> errname + scpio_Reader" where
  "scpio_align r =
    (let i = (soff r + 0x3) AND NOT 0x3;
         N = unat (i - soff r);
         n = min N (length (sr r))
     in if N - n \<noteq> 0 then Inl scpio_errUnexpectedEOF
        else Inr (r\<lparr>sr := drop n (sr r), soff := soff r + of_nat n\<rparr>))"

text \<open>
  \<^verbatim>\<open>trailer()\<close>: \<^verbatim>\<open>tl = 8*12 + len(trailer)\<close> and the buffer has \<^verbatim>\<open>tl-2\<close> bytes. An error comes
  with the reader as it is then, whose offset \<^verbatim>\<open>r.err\<close> prints.
\<close>

definition scpio_trailer :: "scpio_Reader \<Rightarrow> (scpio_Reader \<times> errname) + scpio_Reader" where
  "scpio_trailer r =
    (let tl = 8 * 12 + length trailer_name
     in case ReadFull (sr r) (tl - 2) of
          Inl e \<Rightarrow> Inl (r, e)
        | Inr (b, rest) \<Rightarrow>
            if drop (length b - length trailer_name) b \<noteq> trailer_name
            then Inl (r\<lparr>sr := rest\<rparr>, errInvalidTrailer)
            else (let r1 = r\<lparr>sr := rest, soff := soff r + of_nat (length b)\<rparr>
                  in case scpio_align r1 of Inl e \<Rightarrow> Inl (r1, e) | Inr r2 \<Rightarrow> Inr r2))"

text \<open>\<^verbatim>\<open>hex.Decode\<close>: two hexadecimal digits of either case for each byte.\<close>

definition fromHexChar :: "byte \<Rightarrow> byte option" where
  "fromHexChar c =
     (if 0x30 \<le> c \<and> c \<le> 0x39 then Some (c - 0x30)
      else if 0x61 \<le> c \<and> c \<le> 0x66 then Some (c - 0x61 + 10)
      else if 0x41 \<le> c \<and> c \<le> 0x46 then Some (c - 0x41 + 10)
      else None)"

fun hex_Decode :: "byte list \<Rightarrow> errname + byte list" where
  "hex_Decode (p # q # src) =
     (case fromHexChar p of
        None \<Rightarrow> Inl (hex_InvalidByteError p)
      | Some a \<Rightarrow>
         (case fromHexChar q of
            None \<Rightarrow> Inl (hex_InvalidByteError q)
          | Some b \<Rightarrow>
             (case hex_Decode src of
                Inl e \<Rightarrow> Inl e
              | Inr ds \<Rightarrow> Inr ((push_bit 4 a OR b) # ds))))"
| "hex_Decode src = Inr []"

text \<open>
  \<^verbatim>\<open>Next(sz)\<close> returns the inode and a nil error, or an error. After the 16 bytes of a
  header whose magic is \<^verbatim>\<open>newcMagic\<close> the result is \<^verbatim>\<open>0, r.err(r.trailer())\<close>, and \<^verbatim>\<open>r.err(nil)\<close>
  is nil.
\<close>

definition scpio_Next :: "scpio_Reader \<Rightarrow> 64 word \<Rightarrow> scpio_error + (u32 \<times> scpio_Reader)" where
  "scpio_Next r0 sz =
    (let r = r0\<lparr>soff := soff r0 + sz\<rparr>
     in case scpio_align r of
          Inl e \<Rightarrow> Inl (Errorf (soff r) e)
        | Inr r1 \<Rightarrow>
           (case ReadFull (sr r1) (6 + 8 + 2) of
              Inl e \<Rightarrow> Inl (Errorf (soff r1) e)
            | Inr (b, rest) \<Rightarrow>
               (let r2 = r1\<lparr>sr := rest, soff := soff r1 + of_nat (length b)\<rparr>
                in if take 6 b = bytes_of scpioMagic then
                     (case hex_Decode (take 8 (drop 6 b)) of
                        Inl e \<Rightarrow> Inl (Errorf (soff r2) e)
                      | Inr d \<Rightarrow> Inr (be_val d, r2))
                   else if take 6 b = bytes_of newcMagic then
                     (case scpio_trailer r2 of
                        Inl (r3, e) \<Rightarrow> Inl (Errorf (soff r3) e)
                      | Inr r3 \<Rightarrow> Inr (0, r3))
                   else Inl (Errorf (soff r2) errBadMagic))))"

section \<open>The header reader (read.go)\<close>

text \<open>
  \<^verbatim>\<open>type Reader struct { r io.Reader; lr *io.LimitedReader; off int }\<close>: the bytes left in the
  stream and the running offset. The limited reader \<^verbatim>\<open>lr\<close> reads from the same stream; its
  limit \<^verbatim>\<open>N\<close> is set before each use and is a local value of the model.
\<close>

record Reader =
  rr :: "byte list"
  roff :: "64 word"

definition NewReader :: "byte list \<Rightarrow> Reader" where
  "NewReader s = \<lparr>rr = s, roff = 0\<rparr>"

definition Reader_align :: "Reader \<Rightarrow> error + Reader" where
  "Reader_align r =
    (let i = (roff r + 0x7) AND NOT 0x7;
         N = unat (i - roff r);
         n = min N (length (rr r))
     in if N - n \<noteq> 0 then Inl (New errBadAlign)
        else Inr (r\<lparr>rr := drop n (rr r), roff := roff r + of_nat n\<rparr>))"

definition Reader_header :: "Reader \<Rightarrow> errname + (Header \<times> Reader)" where
  "Reader_header r =
    (case ReadFull (rr r) 16 of
       Inl e \<Rightarrow> Inl e
     | Inr (b, rest) \<Rightarrow>
        (let hdr = new_Header\<lparr>Magic := take 8 b, HCount := be_val (take 4 (drop 8 b)),
                              Length := be_val (take 4 (drop 12 b))\<rparr>
         in if Magic hdr \<noteq> rpmHeaderMagic then Inl errInvalidHeader
            else Inr (hdr, r\<lparr>rr := rest, roff := roff r + of_nat tagSize\<rparr>)))"

definition th_of :: "'a tagHeader_scheme \<Rightarrow> tagHeader" where
  "th_of t = \<lparr>Tag = Tag t, Type = Type t, Offset = Offset t, Count = Count t\<rparr>"

text \<open>
  \<^verbatim>\<open>tags(hdr)\<close>: \<open>n\<close> entries are still to be read, \<open>i\<close> is the loop index, \<open>len\<close> is
  \<^verbatim>\<open>hdr.Length\<close> and \<open>acc\<close> is \<^verbatim>\<open>hdr.Tags\<close>. A read error is returned as it is.
\<close>

fun Reader_tags :: "nat \<Rightarrow> nat \<Rightarrow> u32 \<Rightarrow> Reader \<Rightarrow> tag list \<Rightarrow> error + (tag list \<times> Reader)" where
  "Reader_tags 0 i len r acc = Inr (acc, r)"
| "Reader_tags (Suc n) i len r acc =
    (case ReadFull (rr r) 16 of
       Inl e \<Rightarrow> Inl (New e)
     | Inr (b, rest) \<Rightarrow>
        (let th = th_parse b;
             t = \<lparr>Tag = Tag th, Type = Type th, Offset = Offset th, Count = Count th,
                  idx = i, toff = 0, data = NilData\<rparr>
         in if Offset t > len
            then Inl (OffsetError (roff r) (TagError (th_of t) (New errOffsetOOB)))
            else Reader_tags n (Suc i) len (r\<lparr>rr := rest, roff := roff r + of_nat tagSize\<rparr>)
                   (acc @ [t])))"

definition tagaligned :: "Reader \<Rightarrow> tag \<Rightarrow> bool" where
  "tagaligned r t =
    (if Type t = RPM_INT16_TYPE then roff r AND 0x1 = 0
     else if Type t = RPM_INT32_TYPE then roff r AND 0x3 = 0
     else if Type t = RPM_INT64_TYPE then roff r AND 0x7 = 0
     else True)"

text \<open>\<^verbatim>\<open>make(a, b)\<close> allocates the value of a tag for the span \<^verbatim>\<open>dl = b - a\<close>.\<close>

definition make :: "tag \<Rightarrow> u32 \<Rightarrow> u32 \<Rightarrow> errname + tag" where
  "make t a b =
    (let dl = b - a
     in if Type t = RPM_INT16_TYPE then
          (if Count t > drop_bit 1 dl then Inl errTagSize
           else Inr (t\<lparr>data := TagUint16 (replicate (unat (Count t)) 0)\<rparr>))
        else if Type t = RPM_INT32_TYPE then
          (if Count t > drop_bit 2 dl then Inl errTagSize
           else Inr (t\<lparr>data := TagUint32 (replicate (unat (Count t)) 0)\<rparr>))
        else if Type t = RPM_INT64_TYPE then
          (if Count t > drop_bit 3 dl then Inl errTagSize
           else Inr (t\<lparr>data := TagUint64 (replicate (unat (Count t)) 0)\<rparr>))
        else if Type t = RPM_STRING_TYPE \<or> Type t = RPM_I18NSTRING_TYPE
                \<or> Type t = RPM_STRING_ARRAY_TYPE then
          (if Count t > dl then Inl errTagSize
           else Inr (t\<lparr>data := TagString (replicate (unat (Count t)) []) 0\<rparr>))
        else if Type t = RPM_BIN_TYPE \<or> Type t = RPM_CHAR_TYPE \<or> Type t = RPM_INT8_TYPE then
          (if Count t > dl then Inl errTagSize
           else Inr (t\<lparr>data := TagBytes None (Count t)\<rparr>))
        else Inl errTagType)"

text \<open>
  A read of \<open>n\<close> bytes through the limited reader with limit \<open>N\<close> on the stream \<open>s\<close>
  (\<^verbatim>\<open>binary.Read\<close> uses \<^verbatim>\<open>io.ReadFull\<close>): the bytes, the new limit and the rest of the stream.
\<close>

definition lr_ReadFull :: "nat \<Rightarrow> byte list \<Rightarrow> nat \<Rightarrow> errname + (byte list \<times> nat \<times> byte list)" where
  "lr_ReadFull N s n =
    (case ReadFull (take N s) n of
       Inl e \<Rightarrow> Inl e
     | Inr (b, rest) \<Rightarrow> Inr (b, N - n, drop n s))"

text \<open>
  \<^verbatim>\<open>bufio.NewReader(r).ReadBytes(0)\<close> on the limited reader. The buffered reader has a buffer
  of 4096 bytes (\<^verbatim>\<open>defaultBufSize\<close>); \<open>buf\<close> holds its unread bytes. It returns the bytes up to
  and including the first NUL; when the buffer has none it keeps a full buffer as a fragment
  (\<open>acc\<close>), or else fills the free part of the buffer with one read, and a read that brings
  nothing ends with \<^verbatim>\<open>io.EOF\<close>.
\<close>

definition bufSize :: nat where "bufSize = 4096"

function ReadBytes0 :: "byte list \<Rightarrow> nat \<Rightarrow> byte list \<Rightarrow> byte list
    \<Rightarrow> errname + (byte list \<times> byte list \<times> nat \<times> byte list)" where
  "ReadBytes0 buf N s acc =
    (if 0 \<in> set buf
     then Inr (acc @ takeWhile (\<lambda>b. b \<noteq> 0) buf @ [0], tl (dropWhile (\<lambda>b. b \<noteq> 0) buf), N, s)
     else if length buf \<ge> bufSize then ReadBytes0 [] N s (acc @ buf)
     else (let k = min (bufSize - length buf) (min N (length s))
           in if k = 0 then Inl io_EOF
              else ReadBytes0 (buf @ take k s) (N - k) (drop k s) acc))"
  by pat_completeness auto
termination
  by (relation "measure (\<lambda>(buf, N, s, acc).
        2 * min N (length s) + (if length buf \<ge> bufSize then 1 else 0))")
     (auto simp: bufSize_def min_def)

declare ReadBytes0.simps [simp del]

text \<open>
  The loop of \<^verbatim>\<open>tagString.ReadFrom\<close>: \<open>n\<close> strings are still to be read, \<open>acc\<close> are the
  strings read and \<open>l\<close> is \<^verbatim>\<open>t.len\<close>.
\<close>

fun ReadStrings :: "nat \<Rightarrow> byte list \<Rightarrow> nat \<Rightarrow> byte list \<Rightarrow> string list \<Rightarrow> nat
    \<Rightarrow> errname + (string list \<times> nat \<times> byte list \<times> nat \<times> byte list)" where
  "ReadStrings 0 buf N s acc l = Inr (acc, l, buf, N, s)"
| "ReadStrings (Suc n) buf N s acc l =
    (case ReadBytes0 buf N s [] of
       Inl e \<Rightarrow> Inl e
     | Inr (sb, buf', N', s') \<Rightarrow>
         ReadStrings n buf' N' s' (acc @ [string_of (butlast sb)]) (l + length sb))"

text \<open>
  \<^verbatim>\<open>v.data.ReadFrom(r.lr)\<close> with \<^verbatim>\<open>r.lr.N = N\<close>: the value read, the count \<open>w\<close> that
  \<^verbatim>\<open>ReadFrom\<close> returns, the limit left and the rest of the stream. The integer vectors read
  \<^verbatim>\<open>Len()\<close> bytes and return \<^verbatim>\<open>Len()\<close>; the strings return what the buffered reader took from
  the stream; the byte blob reads the whole span and keeps the first \<^verbatim>\<open>count\<close> bytes.
\<close>

fun data_ReadFrom :: "tagData \<Rightarrow> nat \<Rightarrow> byte list
    \<Rightarrow> error + (tagData \<times> nat \<times> nat \<times> byte list)" where
  "data_ReadFrom (TagUint16 t) N s =
    (case lr_ReadFull N s (length t * 2) of
       Inl e \<Rightarrow> Inl (New e)
     | Inr (b, N', s') \<Rightarrow> Inr (TagUint16 (map be_val (chunks 2 (length t) b)), length t * 2, N', s'))"
| "data_ReadFrom (TagUint32 t) N s =
    (case lr_ReadFull N s (length t * 4) of
       Inl e \<Rightarrow> Inl (New e)
     | Inr (b, N', s') \<Rightarrow> Inr (TagUint32 (map be_val (chunks 4 (length t) b)), length t * 4, N', s'))"
| "data_ReadFrom (TagUint64 t) N s =
    (case lr_ReadFull N s (length t * 8) of
       Inl e \<Rightarrow> Inl (New e)
     | Inr (b, N', s') \<Rightarrow> Inr (TagUint64 (map be_val (chunks 8 (length t) b)), length t * 8, N', s'))"
| "data_ReadFrom (TagString d l) N s =
    (case ReadStrings (length d) [] N s [] l of
       Inl e \<Rightarrow> Inl (New e)
     | Inr (strs, l', buf, N', s') \<Rightarrow> Inr (TagString strs l', length buf + l', N', s'))"
| "data_ReadFrom (TagBytes b c) N s =
    (let n = min N (length s);
         buf = (case b of None \<Rightarrow> [] | Some x \<Rightarrow> x) @ take n s
     in if n < unat c then Inl (New errUnexpectedEOF)
        else Inr (TagBytes (Some (take (unat c) buf)) c, n, N - n, drop n s))"
| "data_ReadFrom (Buffer b) N s =
    (let n = min N (length s) in Inr (Buffer (b @ take n s), n, N - n, drop n s))"
| "data_ReadFrom NilData N s = Inl (Panic NilDereference)"

text \<open>
  The body of the loop of \<^verbatim>\<open>Next\<close> for the tag \<open>v\<close>, in three parts. First the alignment
  check. Then the end \<open>nt\<close> of the span of the tag: \<open>len\<close> and \<open>cnt\<close> are \<^verbatim>\<open>hdr.Length\<close> and
  \<^verbatim>\<open>hdr.Count\<close>, \<open>i\<close> is the loop index and \<open>vs\<close> are \<^verbatim>\<open>hdr.Tags[i+1:]\<close>.
\<close>

definition next_offset :: "u32 \<Rightarrow> u32 \<Rightarrow> nat \<Rightarrow> tag list \<Rightarrow> error + u32" where
  "next_offset len cnt i vs =
     (if int i = int (unat cnt) - 1 then Inr len
      else (case vs of [] \<Rightarrow> Inl (Panic IndexOutOfRange) | t # ts \<Rightarrow> Inr (Offset t)))"

text \<open>
  Then the span check and the reading of the value, bounded by the span \<open>nr\<close>; what is left
  of the span must be fewer than 8 bytes of padding, which are discarded.
\<close>

definition read_tag :: "tag \<Rightarrow> u32 \<Rightarrow> Reader \<Rightarrow> error + (tag \<times> Reader)" where
  "read_tag v nt r =
    (if nt \<le> Offset v
     then Inl (OffsetError (roff r) (TagError (th_of v) (New errOffsetOOB)))
     else
      (let nr = nt - Offset v
       in case make v (Offset v) nt of
            Inl e \<Rightarrow> Inl (OffsetError (roff r) (TagError (th_of v) (New e)))
          | Inr v1 \<Rightarrow>
             (case data_ReadFrom (data v1) (unat nr) (rr r) of
                Inl e \<Rightarrow> Inl (OffsetError (roff r) (TagError (th_of v) e))
              | Inr (d, w, N', s') \<Rightarrow>
                 if N' \<noteq> 0 \<and> N' \<ge> 8
                 then Inl (OffsetError (roff r) (TagError (th_of v) (New errUnexpectedEOF)))
                 else
                  (let dn = min N' (length s');
                       w' = w + dn
                   in if unat nr \<noteq> w'
                      then Inl (OffsetError (roff r) (TagError (th_of v) (New errUnexpectedEOF)))
                      else Inr (v1\<lparr>data := d, toff := roff r\<rparr>,
                                r\<lparr>rr := drop dn s', roff := roff r + of_nat w'\<rparr>)))))"

text \<open>The loop of \<^verbatim>\<open>Next\<close> over the sorted tags \<^verbatim>\<open>hdr.Tags[i:]\<close>.\<close>

fun Next_loop :: "u32 \<Rightarrow> u32 \<Rightarrow> nat \<Rightarrow> tag list \<Rightarrow> Reader \<Rightarrow> error + (tag list \<times> Reader)" where
  "Next_loop len cnt i [] r = Inr ([], r)"
| "Next_loop len cnt i (v # vs) r =
    (if \<not> tagaligned r v
     then Inl (OffsetError (roff r) (TagError (th_of v) (New errBadAlign)))
     else
      (case next_offset len cnt i vs of
         Inl e \<Rightarrow> Inl e
       | Inr nt \<Rightarrow>
          (case read_tag v nt r of
             Inl e \<Rightarrow> Inl e
           | Inr (v2, r1) \<Rightarrow>
              (case Next_loop len cnt (Suc i) vs r1 of
                 Inl e \<Rightarrow> Inl e
               | Inr (ts, r') \<Rightarrow> Inr (v2 # ts, r')))))"

text \<open>
  \<^verbatim>\<open>Reader.Next\<close>. The registry gives the two region markers and \<open>srt\<close> is \<^verbatim>\<open>sort.Sort\<close>,
  as in \<open>WriteTo\<close>. The result is the header and the reader after the call.
\<close>

definition Next :: "tagRegistry \<Rightarrow> (tag list \<Rightarrow> tag list) \<Rightarrow> Reader \<Rightarrow> error + (Header \<times> Reader)" where
  "Next reg srt r0 =
    (case Reader_align r0 of
       Inl e \<Rightarrow> Inl e
     | Inr r1 \<Rightarrow>
        (case Reader_header r1 of
           Inl e \<Rightarrow> Inl (OffsetError (roff r1) (New e))
         | Inr (hdr, r2) \<Rightarrow>
            (case Reader_tags (unat (HCount hdr)) 0 (Length hdr) r2 [] of
               Inl e \<Rightarrow> Inl e
             | Inr (ts, r3) \<Rightarrow>
                if length ts = 0 then Inr (hdr\<lparr>Tags := ts\<rparr>, r3)
                else
                 (case Next_loop (Length hdr) (HCount hdr) 0 (srt ts) r3 of
                    Inl e \<Rightarrow> Inl e
                  | Inr (ts', r4) \<Rightarrow>
                     (let lt = last ts'
                      in if Tag lt = HEADER_IMMUTABLE reg \<or> Tag lt = HEADER_SIGNATURES reg
                         then Inr ((SetRegion (hdr\<lparr>Tags := ts'\<rparr>) (Tag lt))
                                     \<lparr>Tags := butlast ts', off := Offset lt\<rparr>, r4)
                         else Inr (hdr\<lparr>Tags := ts', off := Length hdr\<rparr>, r4))))))"

subsection \<open>Notions used to state the properties of the file index\<close>

text \<open>
  The directory of a path as \<^verbatim>\<open>prefixMap.index\<close> takes it: the first component of
  \<^verbatim>\<open>filepath.Split\<close>, or \<^verbatim>\<open>"/"\<close> when that is empty.
\<close>

definition dir_of :: "string \<Rightarrow> string" where
  "dir_of path = (let d = fst (Split path) in if d = [] then ''/'' else d)"

text \<open>The position of the first occurrence of \<open>x\<close> in \<open>xs\<close>.\<close>

definition pos :: "'a \<Rightarrow> 'a list \<Rightarrow> nat" where
  "pos x xs = length (takeWhile (\<lambda>y. y \<noteq> x) xs)"

text \<open>\<^verbatim>\<open>&File{Name: n}\<close>: every other field has its zero value.\<close>

definition file_named :: "string \<Rightarrow> File" where
  "file_named n = \<lparr>Name = n, User = [], Group = [], Mode = 0, LinkTo = [], MTime = 0,
                    Digest = [], NoVerify = 0, Size = 0, Flags = 0\<rparr>"

text \<open>The invariant of a prefix map: the map sends each directory to its position in \<open>s\<close>.\<close>

definition pm_inv :: "prefixMap \<Rightarrow> bool" where
  "pm_inv p = (distinct (pm_s p) \<and> length (pm_m p) = length (pm_s p)
     \<and> distinct (map fst (pm_m p))
     \<and> (\<forall>d. map_of (pm_m p) d = (if d \<in> set (pm_s p) then Some (pos d (pm_s p)) else None)))"

definition fi_inv :: "FileIndex \<Rightarrow> string list \<Rightarrow> bool" where
  "fi_inv fi ps = (pm_inv (dirNames fi)
     \<and> name fi = map (\<lambda>p. snd (Split p)) ps
     \<and> pm_s (dirNames fi) = rev (remdups (rev (map dir_of ps)))
     \<and> dirIndexes fi = map (\<lambda>p. of_nat (pos (dir_of p) (pm_s (dirNames fi)))) ps)"

text \<open>The length on the wire of a vector of strings: every string and its NUL byte.\<close>

definition strings_len :: "string list \<Rightarrow> nat" where
  "strings_len d = sum_list (map (\<lambda>v. length v + 1) d)"

text \<open>Identifier, type and value of each tag of a header, in the order of \<open>Tags\<close>.\<close>

definition sig_of :: "Header \<Rightarrow> (u32 \<times> u32 \<times> tagData) list" where
  "sig_of h = map (\<lambda>t. (Tag t, Type t, data t)) (Tags h)"

definition emitted :: "error + Header \<Rightarrow> (u32 \<times> u32 \<times> tagData) list option" where
  "emitted r = (case r of Inl e \<Rightarrow> None | Inr h \<Rightarrow> Some (sig_of h))"

subsection \<open>The header of the test scenario\<close>

text \<open>
  \<^verbatim>\<open>makeHdr\<close> of the package's tests: seven tags of all the kinds that the add functions
  build. \<open>scenario_tags\<close> are its tags, written out.
\<close>

definition makeHdr :: "error + Header" where
  "makeHdr =
     bindE (AddString new_Header 1 ''foo'') (\<lambda>h.
     bindE (AddStringI18N h 1 ''I18N'') (\<lambda>h.
     bindE (AddStringArray h 2 [''foo'', ''bar'', ''baz'']) (\<lambda>h.
     bindE (AddInt16 h 3 [0x1122, 0x3344, 0x5566]) (\<lambda>h.
     bindE (AddInt32 h 4 [0x11223344, 0x55667788, 0x99112233]) (\<lambda>h.
     bindE (AddInt64 h 5 [0x1122334455667788, 0x99, 0xff]) (\<lambda>h.
     AddBin h 6 (bytes_of ''foo'')))))))"

definition scenario_tags :: "tag list" where
  "scenario_tags =
     [new_tag 1 RPM_STRING_TYPE 1 (TagString [''foo''] 4),
      (new_tag 1 RPM_I18NSTRING_TYPE 1 (TagString [''I18N''] 5))\<lparr>Offset := 4\<rparr>,
      (new_tag 2 RPM_STRING_ARRAY_TYPE 3 (TagString [''foo'', ''bar'', ''baz''] 12))\<lparr>Offset := 9\<rparr>,
      (new_tag 3 RPM_INT16_TYPE 3 (TagUint16 [0x1122, 0x3344, 0x5566]))\<lparr>Offset := 22\<rparr>,
      (new_tag 4 RPM_INT32_TYPE 3 (TagUint32 [0x11223344, 0x55667788, 0x99112233]))\<lparr>Offset := 28\<rparr>,
      (new_tag 5 RPM_INT64_TYPE 3 (TagUint64 [0x1122334455667788, 0x99, 0xff]))\<lparr>Offset := 40\<rparr>,
      (new_tag 6 RPM_BIN_TYPE 3 (TagBytes (Some (bytes_of ''foo'')) 0))\<lparr>Offset := 64\<rparr>]"

subsection \<open>Notions used to state the properties of the header reader\<close>

text \<open>
  A header in bytes: the preamble with the number of entries and the declared length, the
  index entries \<open>es\<close>, and the data region (and whatever follows it) \<open>d\<close>.
\<close>

definition header_input :: "tagHeader list \<Rightarrow> u32 \<Rightarrow> byte list \<Rightarrow> byte list" where
  "header_input es len d =
     rpmHeaderMagic @ be32 (of_nat (length es)) @ be32 len @ concat (map th_bytes es) @ d"

text \<open>The tag that \<^verbatim>\<open>tags\<close> builds from the entry \<open>e\<close> at index \<open>i\<close>.\<close>

definition entry_tag :: "nat \<Rightarrow> tagHeader \<Rightarrow> tag" where
  "entry_tag i e = \<lparr>Tag = Tag e, Type = Type e, Offset = Offset e, Count = Count e,
                    idx = i, toff = 0, data = NilData\<rparr>"

definition entry_tags :: "nat \<Rightarrow> tagHeader list \<Rightarrow> tag list" where
  "entry_tags i es = map (\<lambda>(j, e). entry_tag j e) (zip [i ..< i + length es] es)"

text \<open>An entry whose Offset is not a multiple of the size of its integer type.\<close>

definition misaligned :: "'a tagHeader_scheme \<Rightarrow> bool" where
  "misaligned e =
     (Type e = RPM_INT16_TYPE \<and> \<not> 2 dvd unat (Offset e)
      \<or> Type e = RPM_INT32_TYPE \<and> \<not> 4 dvd unat (Offset e)
      \<or> Type e = RPM_INT64_TYPE \<and> \<not> 8 dvd unat (Offset e))"

text \<open>The header after \<^verbatim>\<open>header()\<close> has read the preamble.\<close>

definition hdr_pre :: "nat \<Rightarrow> u32 \<Rightarrow> Header" where
  "hdr_pre n len = \<lparr>Magic = rpmHeaderMagic, HCount = of_nat n, Length = len, off = 0,
                     region = None, Tags = []\<rparr>"

text \<open>The end of \<^verbatim>\<open>Next\<close>: a last tag with a region marker becomes the region.\<close>

definition finish :: "tagRegistry \<Rightarrow> Header \<Rightarrow> tag list \<Rightarrow> Header" where
  "finish reg hdr ts =
     (let lt = last ts
      in if Tag lt = HEADER_IMMUTABLE reg \<or> Tag lt = HEADER_SIGNATURES reg
         then (SetRegion (hdr\<lparr>Tags := ts\<rparr>) (Tag lt))\<lparr>Tags := butlast ts, off := Offset lt\<rparr>
         else hdr\<lparr>Tags := ts, off := Length hdr\<rparr>)"

subsection \<open>Notions used to state the properties of the region\<close>







section \<open>Typed accessors\<close>

lemmas type_codes = RPM_CHAR_TYPE_def RPM_INT8_TYPE_def RPM_INT16_TYPE_def RPM_INT32_TYPE_def
  RPM_INT64_TYPE_def RPM_STRING_TYPE_def RPM_BIN_TYPE_def RPM_STRING_ARRAY_TYPE_def
  RPM_I18NSTRING_TYPE_def

lemma Int_accessors_mismatch:
  "Int16 (t\<lparr>data := TagUint32 v\<rparr>) = Inr ([], False)"
  "Int32 (t\<lparr>data := TagUint16 w\<rparr>) = Inr ([], False)"
  "Int64 (t\<lparr>data := TagUint32 v\<rparr>) = Inr ([], False)"
  "Bytes (t\<lparr>data := TagUint32 v\<rparr>) = Inr ([], False)"
  by (simp_all add: Int16_def Int32_def Int64_def Bytes_def)

text \<open>
  C7. An accessor called on a tag whose value has another shape should report the mismatch
  through its boolean result. \<^verbatim>\<open>StringArray\<close> and \<^verbatim>\<open>StringData\<close> do not: on a tag that holds
  a uint32 vector (type INT32) they dereference the nil pointer left by the failed type
  assertion and the program panics, where the integer accessors and \<^verbatim>\<open>Bytes\<close> return false.
\<close>

theorem C7_string_accessors_panic_on_mismatch:
  "StringArray \<lparr>Tag = 1116, Type = RPM_INT32_TYPE, Offset = 0, Count = 1,
                idx = 0, toff = 0, data = TagUint32 [7]\<rparr> = Inl NilDereference
   \<and> StringData \<lparr>Tag = 1116, Type = RPM_INT32_TYPE, Offset = 0, Count = 1,
                idx = 0, toff = 0, data = TagUint32 [7]\<rparr> = Inl NilDereference
   \<and> Int16 \<lparr>Tag = 1116, Type = RPM_INT32_TYPE, Offset = 0, Count = 1,
                idx = 0, toff = 0, data = TagUint32 [7]\<rparr> = Inr ([], False)"
  by (simp add: StringArray_def StringData_def Int16_def)

section \<open>The file index\<close>

lemma pos_append_in: "x \<in> set xs \<Longrightarrow> pos x (xs @ ys) = pos x xs"
  by (simp add: pos_def takeWhile_append1)

lemma pos_append_notin: "x \<notin> set xs \<Longrightarrow> pos x (xs @ [x]) = length xs"
  by (induction xs) (auto simp: pos_def)

lemma length_update_new: "map_of al k = None \<Longrightarrow> length (AList.update k v al) = Suc (length al)"
  by (induction al) (auto split: if_splits)

lemma Split_props:
  "fst (Split p) @ snd (Split p) = p"
  "CHR ''/'' \<notin> set (snd (Split p))"
  "fst (Split p) = [] \<or> last (fst (Split p)) = CHR ''/''"
proof -
  show "fst (Split p) @ snd (Split p) = p"
    unfolding Split_def fst_conv snd_conv
    by (metis rev_append rev_rev_ident takeWhile_dropWhile_id)
  show "CHR ''/'' \<notin> set (snd (Split p))"
    unfolding Split_def snd_conv set_rev
    by (auto dest: set_takeWhileD)
  show "fst (Split p) = [] \<or> last (fst (Split p)) = CHR ''/''"
    unfolding Split_def fst_conv
    using hd_dropWhile [of "\<lambda>c. c \<noteq> CHR ''/''" "rev p"]
    by (cases "dropWhile (\<lambda>c. c \<noteq> CHR ''/'') (rev p) = []") (simp_all add: last_rev)
qed

lemma index_eq:
  "index p file = (case map_of (pm_m p) (dir_of file) of
       Some i \<Rightarrow> (p, snd (Split file), i)
     | None \<Rightarrow> (p\<lparr>pm_m := AList.update (dir_of file) (length (pm_m p)) (pm_m p),
                  pm_s := pm_s p @ [dir_of file]\<rparr>, snd (Split file), length (pm_m p)))"
  by (auto simp: index_def dir_of_def Let_def split_beta split: option.splits)

lemma index_step:
  assumes inv: "pm_inv p" and ix: "index p file = (p', f, i)"
  shows "pm_inv p' \<and> f = snd (Split file)
     \<and> pm_s p' = (if dir_of file \<in> set (pm_s p) then pm_s p else pm_s p @ [dir_of file])
     \<and> i = pos (dir_of file) (pm_s p')"
proof -
  let ?d = "dir_of file"
  from inv have dist: "distinct (pm_s p)" and len: "length (pm_m p) = length (pm_s p)"
    and dk: "distinct (map fst (pm_m p))"
    and look: "\<And>d. map_of (pm_m p) d = (if d \<in> set (pm_s p) then Some (pos d (pm_s p)) else None)"
    by (simp_all add: pm_inv_def)
  show ?thesis
  proof (cases "?d \<in> set (pm_s p)")
    case True
    then have "map_of (pm_m p) ?d = Some (pos ?d (pm_s p))" by (simp add: look)
    with ix have "p' = p \<and> f = snd (Split file) \<and> i = pos ?d (pm_s p)"
      by (auto simp: index_eq)
    with True inv show ?thesis by simp
  next
    case False
    then have none: "map_of (pm_m p) ?d = None" by (simp add: look)
    with ix have p': "p' = p\<lparr>pm_m := AList.update ?d (length (pm_m p)) (pm_m p), pm_s := pm_s p @ [?d]\<rparr>"
      and f: "f = snd (Split file)" and i: "i = length (pm_m p)"
      by (auto simp: index_eq)
    have "pm_inv p'"
      unfolding pm_inv_def p'
      using dist len dk False none
      by (simp add: length_update_new distinct_update update_conv' look pos_append_in pos_append_notin)
    moreover have "i = pos ?d (pm_s p')"
      using False by (simp add: i p' len pos_append_notin)
    ultimately show ?thesis using False f by (simp add: p')
  qed
qed

lemma first_seen_snoc:
  "rev (remdups (rev (ds @ [d]))) = (if d \<in> set ds then rev (remdups (rev ds)) else rev (remdups (rev ds)) @ [d])"
  by (induction ds) auto

lemma fi_inv_Add:
  assumes "fi_inv fi ps"
  shows "fi_inv (FileIndex_Add fi r) (ps @ [Name r])"
proof -
  obtain p' f i where ix: "index (dirNames fi) (Name r) = (p', f, i)"
    by (cases "index (dirNames fi) (Name r)") auto
  from assms have inv: "pm_inv (dirNames fi)" by (simp add: fi_inv_def)
  note st = index_step [OF inv ix]
  have s: "pm_s (dirNames fi) = rev (remdups (rev (map dir_of ps)))"
    using assms by (simp add: fi_inv_def)
  have sub: "\<And>p. p \<in> set ps \<Longrightarrow> pos (dir_of p) (pm_s p') = pos (dir_of p) (pm_s (dirNames fi))"
    using st s by (auto simp: pos_append_in)
  from st have inv': "pm_inv p'" and f: "f = snd (Split (Name r))"
    and s': "pm_s p' = (if dir_of (Name r) \<in> set (pm_s (dirNames fi)) then pm_s (dirNames fi)
                        else pm_s (dirNames fi) @ [dir_of (Name r)])"
    and i: "i = pos (dir_of (Name r)) (pm_s p')"
    by simp_all
  have A: "FileIndex_Add fi r = fi\<lparr>dirNames := p',
          dirIndexes := dirIndexes fi @ [of_nat i],
          name := name fi @ [f],
          mode := mode fi @ [Mode r],
          mtime := mtime fi @ [MTime r],
          verify := verify fi @ [NOT (NoVerify r)],
          linkto := linkto fi @ [LinkTo r],
          digest := digest fi @ [Digest r],
          flags := flags fi @ [Flags r],
          user := user fi @ [def (User r) [] ''root''],
          group := group fi @ [def (Group r) [] ''root''],
          lsize := append_nil (lsize fi) (Size r),
          rpmlsize := rpmlsize fi + Size r\<rparr>"
    by (simp add: FileIndex_Add_def ix)
  have n: "name fi = map (\<lambda>p. snd (Split p)) ps"
    and di: "dirIndexes fi = map (\<lambda>p. of_nat (pos (dir_of p) (pm_s (dirNames fi)))) ps"
    using assms by (simp_all add: fi_inv_def)
  have s2: "pm_s p' = rev (remdups (rev (map dir_of (ps @ [Name r]))))"
    using s' s by (simp add: first_seen_snoc del: rev_append)
  have di2: "dirIndexes fi = map (\<lambda>p. of_nat (pos (dir_of p) (pm_s p'))) ps"
    unfolding di using sub by simp
  show ?thesis
    unfolding fi_inv_def A using inv' f i n s2 di2 by simp
qed

lemma fi_inv_foldl:
  "fi_inv fi ps \<Longrightarrow> fi_inv (foldl FileIndex_Add fi files) (ps @ map Name files)"
proof (induction files arbitrary: fi ps)
  case Nil then show ?case by simp
next
  case (Cons r rs)
  from Cons.IH [OF fi_inv_Add [OF Cons.prems, of r]] show ?case by simp
qed

lemma fi_inv_New: "fi_inv NewFileIndex []"
  by (simp add: fi_inv_def NewFileIndex_def newPrefixMap_def pm_inv_def)

lemma foldl_Add_sizes:
  "lsize (foldl FileIndex_Add fi files) =
     (if files = [] then lsize fi
      else Some ((case lsize fi of None \<Rightarrow> [] | Some xs \<Rightarrow> xs) @ map Size files))
   \<and> rpmlsize (foldl FileIndex_Add fi files) = rpmlsize fi + sum_list (map Size files)
   \<and> length (name (foldl FileIndex_Add fi files)) = length (name fi) + length files"
proof (induction files arbitrary: fi)
  case Nil
  then show ?case by simp
next
  case (Cons r rs)
  have "lsize (FileIndex_Add fi r) = Some ((case lsize fi of None \<Rightarrow> [] | Some xs \<Rightarrow> xs) @ [Size r])"
    "rpmlsize (FileIndex_Add fi r) = rpmlsize fi + Size r"
    "length (name (FileIndex_Add fi r)) = Suc (length (name fi))"
    by (simp_all add: FileIndex_Add_def split_beta append_nil_def split: option.splits)
  then show ?case
    using Cons.IH [of "FileIndex_Add fi r"] by (simp add: add.assoc)
qed

lemma Add_sig:
  assumes "Len d = Inr n"
  shows "\<exists>h. Add hdr (new_tag tg ty c d) = Inr h
     \<and> sig_of h = sig_of hdr @ [(tg, ty, Len_after d)]"
  using assms by (simp add: Add_def new_tag_def Let_def sig_of_def)

lemma AddStringArray_sig:
  "\<exists>h. AddStringArray hdr tg d = Inr h
     \<and> sig_of h = sig_of hdr @ [(tg, RPM_STRING_ARRAY_TYPE, TagString d (strings_len d))]"
  using Add_sig [of "TagString d 0" "strings_len d" hdr tg RPM_STRING_ARRAY_TYPE "of_nat (length d)"]
  by (simp add: AddStringArray_def strings_len_def)

lemma AddInt16_sig:
  "\<exists>h. AddInt16 hdr tg d = Inr h \<and> sig_of h = sig_of hdr @ [(tg, RPM_INT16_TYPE, TagUint16 d)]"
  using Add_sig [of "TagUint16 d" "length d * 2" hdr tg _ "of_nat (length d)"]
  by (simp add: AddInt16_def)

lemma AddInt32_sig:
  "\<exists>h. AddInt32 hdr tg d = Inr h \<and> sig_of h = sig_of hdr @ [(tg, RPM_INT32_TYPE, TagUint32 d)]"
  using Add_sig [of "TagUint32 d" "length d * 4" hdr tg _ "of_nat (length d)"]
  by (simp add: AddInt32_def)

lemma AddInt64_sig:
  "\<exists>h. AddInt64 hdr tg d = Inr h \<and> sig_of h = sig_of hdr @ [(tg, RPM_INT64_TYPE, TagUint64 d)]"
  using Add_sig [of "TagUint64 d" "length d * 8" hdr tg _ "of_nat (length d)"]
  by (simp add: AddInt64_def)

lemma Append_long:
  assumes ls: "lsize f = Some ls" and nm: "name f \<noteq> []"
  shows "\<exists>hdr'. Append reg f hdr = Inr hdr'
    \<and> sig_of hdr' = sig_of hdr @
       [(RPMTAG_DIRNAMES reg, RPM_STRING_ARRAY_TYPE, TagString (pm_s (dirNames f)) (strings_len (pm_s (dirNames f)))),
        (RPMTAG_BASENAMES reg, RPM_STRING_ARRAY_TYPE, TagString (name f) (strings_len (name f))),
        (RPMTAG_FILEUSERNAME reg, RPM_STRING_ARRAY_TYPE, TagString (user f) (strings_len (user f))),
        (RPMTAG_FILEGROUPNAME reg, RPM_STRING_ARRAY_TYPE, TagString (group f) (strings_len (group f))),
        (RPMTAG_FILELINKTOS reg, RPM_STRING_ARRAY_TYPE, TagString (linkto f) (strings_len (linkto f))),
        (RPMTAG_FILEDIGESTS reg, RPM_STRING_ARRAY_TYPE, TagString (digest f) (strings_len (digest f))),
        (RPMTAG_DIRINDEXES reg, RPM_INT32_TYPE, TagUint32 (dirIndexes f)),
        (RPMTAG_FILEMTIMES reg, RPM_INT32_TYPE, TagUint32 (mtime f)),
        (RPMTAG_FILEMODES reg, RPM_INT16_TYPE, TagUint16 (mode f)),
        (RPMTAG_FILEFLAGS reg, RPM_INT32_TYPE, TagUint32 (flags f)),
        (RPMTAG_FILEVERIFYFLAGS reg, RPM_INT32_TYPE, TagUint32 (verify f)),
        (RPMTAG_LONGFILESIZES reg, RPM_INT64_TYPE, TagUint64 ls),
        (RPMTAG_LONGSIZE reg, RPM_INT64_TYPE, TagUint64 [rpmlsize f])]"
proof -
  obtain h1 where a1: "AddStringArray hdr (RPMTAG_DIRNAMES reg) (pm_s (dirNames f)) = Inr h1"
    and s1: "sig_of h1 = sig_of hdr @ [(RPMTAG_DIRNAMES reg, RPM_STRING_ARRAY_TYPE, TagString (pm_s (dirNames f)) (strings_len (pm_s (dirNames f))))]"
    using AddStringArray_sig by blast
  obtain h2 where a2: "AddStringArray h1 (RPMTAG_BASENAMES reg) (name f) = Inr h2"
    and s2: "sig_of h2 = sig_of h1 @ [(RPMTAG_BASENAMES reg, RPM_STRING_ARRAY_TYPE, TagString (name f) (strings_len (name f)))]"
    using AddStringArray_sig by blast
  obtain h3 where a3: "AddStringArray h2 (RPMTAG_FILEUSERNAME reg) (user f) = Inr h3"
    and s3: "sig_of h3 = sig_of h2 @ [(RPMTAG_FILEUSERNAME reg, RPM_STRING_ARRAY_TYPE, TagString (user f) (strings_len (user f)))]"
    using AddStringArray_sig by blast
  obtain h4 where a4: "AddStringArray h3 (RPMTAG_FILEGROUPNAME reg) (group f) = Inr h4"
    and s4: "sig_of h4 = sig_of h3 @ [(RPMTAG_FILEGROUPNAME reg, RPM_STRING_ARRAY_TYPE, TagString (group f) (strings_len (group f)))]"
    using AddStringArray_sig by blast
  obtain h5 where a5: "AddStringArray h4 (RPMTAG_FILELINKTOS reg) (linkto f) = Inr h5"
    and s5: "sig_of h5 = sig_of h4 @ [(RPMTAG_FILELINKTOS reg, RPM_STRING_ARRAY_TYPE, TagString (linkto f) (strings_len (linkto f)))]"
    using AddStringArray_sig by blast
  obtain h6 where a6: "AddStringArray h5 (RPMTAG_FILEDIGESTS reg) (digest f) = Inr h6"
    and s6: "sig_of h6 = sig_of h5 @ [(RPMTAG_FILEDIGESTS reg, RPM_STRING_ARRAY_TYPE, TagString (digest f) (strings_len (digest f)))]"
    using AddStringArray_sig by blast
  obtain h7 where a7: "AddInt32 h6 (RPMTAG_DIRINDEXES reg) (dirIndexes f) = Inr h7"
    and s7: "sig_of h7 = sig_of h6 @ [(RPMTAG_DIRINDEXES reg, RPM_INT32_TYPE, TagUint32 (dirIndexes f))]"
    using AddInt32_sig by blast
  obtain h8 where a8: "AddInt32 h7 (RPMTAG_FILEMTIMES reg) (mtime f) = Inr h8"
    and s8: "sig_of h8 = sig_of h7 @ [(RPMTAG_FILEMTIMES reg, RPM_INT32_TYPE, TagUint32 (mtime f))]"
    using AddInt32_sig by blast
  obtain h9 where a9: "AddInt16 h8 (RPMTAG_FILEMODES reg) (mode f) = Inr h9"
    and s9: "sig_of h9 = sig_of h8 @ [(RPMTAG_FILEMODES reg, RPM_INT16_TYPE, TagUint16 (mode f))]"
    using AddInt16_sig by blast
  obtain h10 where a10: "AddInt32 h9 (RPMTAG_FILEFLAGS reg) (flags f) = Inr h10"
    and s10: "sig_of h10 = sig_of h9 @ [(RPMTAG_FILEFLAGS reg, RPM_INT32_TYPE, TagUint32 (flags f))]"
    using AddInt32_sig by blast
  obtain h11 where a11: "AddInt32 h10 (RPMTAG_FILEVERIFYFLAGS reg) (verify f) = Inr h11"
    and s11: "sig_of h11 = sig_of h10 @ [(RPMTAG_FILEVERIFYFLAGS reg, RPM_INT32_TYPE, TagUint32 (verify f))]"
    using AddInt32_sig by blast
  obtain h12 where a12: "AddInt64 h11 (RPMTAG_LONGFILESIZES reg) ls = Inr h12"
    and s12: "sig_of h12 = sig_of h11 @ [(RPMTAG_LONGFILESIZES reg, RPM_INT64_TYPE, TagUint64 ls)]"
    using AddInt64_sig by blast
  obtain h13 where a13: "AddInt64 h12 (RPMTAG_LONGSIZE reg) [rpmlsize f] = Inr h13"
    and s13: "sig_of h13 = sig_of h12 @ [(RPMTAG_LONGSIZE reg, RPM_INT64_TYPE, TagUint64 [rpmlsize f])]"
    using AddInt64_sig by blast
  have "Append reg f hdr = Inr h13"
    using nm by (simp add: Append_def bindE_def ls a1 a2 a3 a4 a5 a6 a7 a8 a9 a10 a11 a12 a13)
  moreover have "sig_of h13 = sig_of hdr @
       [(RPMTAG_DIRNAMES reg, RPM_STRING_ARRAY_TYPE, TagString (pm_s (dirNames f)) (strings_len (pm_s (dirNames f)))),
        (RPMTAG_BASENAMES reg, RPM_STRING_ARRAY_TYPE, TagString (name f) (strings_len (name f))),
        (RPMTAG_FILEUSERNAME reg, RPM_STRING_ARRAY_TYPE, TagString (user f) (strings_len (user f))),
        (RPMTAG_FILEGROUPNAME reg, RPM_STRING_ARRAY_TYPE, TagString (group f) (strings_len (group f))),
        (RPMTAG_FILELINKTOS reg, RPM_STRING_ARRAY_TYPE, TagString (linkto f) (strings_len (linkto f))),
        (RPMTAG_FILEDIGESTS reg, RPM_STRING_ARRAY_TYPE, TagString (digest f) (strings_len (digest f))),
        (RPMTAG_DIRINDEXES reg, RPM_INT32_TYPE, TagUint32 (dirIndexes f)),
        (RPMTAG_FILEMTIMES reg, RPM_INT32_TYPE, TagUint32 (mtime f)),
        (RPMTAG_FILEMODES reg, RPM_INT16_TYPE, TagUint16 (mode f)),
        (RPMTAG_FILEFLAGS reg, RPM_INT32_TYPE, TagUint32 (flags f)),
        (RPMTAG_FILEVERIFYFLAGS reg, RPM_INT32_TYPE, TagUint32 (verify f)),
        (RPMTAG_LONGFILESIZES reg, RPM_INT64_TYPE, TagUint64 ls),
        (RPMTAG_LONGSIZE reg, RPM_INT64_TYPE, TagUint64 [rpmlsize f])]"
    by (simp only: s1 s2 s3 s4 s5 s6 s7 s8 s9 s10 s11 s12 s13 append_assoc append_Cons append_Nil)
  ultimately show ?thesis by blast
qed


lemma prefix_example:
 "dirIndexes (foldl FileIndex_Add NewFileIndex
        (map file_named [''/file1'', ''/dir1/file2'', ''/file3'', ''/dir2/file4'', ''nosep'']))
      = [0, 1, 0, 2, 0]
    \<and> pm_s (dirNames (foldl FileIndex_Add NewFileIndex
        (map file_named [''/file1'', ''/dir1/file2'', ''/file3'', ''/dir2/file4'', ''nosep''])))
      = [''/'', ''/dir1/'', ''/dir2/'']"
  by code_simp

text \<open>
  C8. Each path added to a file index is split into a directory, everything up to and
  including the last \<^verbatim>\<open>/\<close> (or \<^verbatim>\<open>"/"\<close> when the path has no separator), and a base name, the
  rest; the directory names are the distinct directories in first-seen order, and the index
  recorded for a path is the position of its directory among them. Adding \<^verbatim>\<open>/file1\<close>,
  \<^verbatim>\<open>/dir1/file2\<close>, \<^verbatim>\<open>/file3\<close>, \<^verbatim>\<open>/dir2/file4\<close>, \<^verbatim>\<open>nosep\<close> gives the indexes 0, 1, 0, 2, 0 and
  the directory names \<^verbatim>\<open>/\<close>, \<^verbatim>\<open>/dir1/\<close>, \<^verbatim>\<open>/dir2/\<close>.
\<close>

theorem C8_prefix_dedup:
  "(let fi = foldl FileIndex_Add NewFileIndex files; ps = map Name files
    in name fi = map (\<lambda>p. snd (Split p)) ps
     \<and> pm_s (dirNames fi) = rev (remdups (rev (map dir_of ps)))
     \<and> dirIndexes fi = map (\<lambda>p. of_nat (pos (dir_of p) (pm_s (dirNames fi)))) ps)
   \<and> fst (Split path) @ snd (Split path) = path
   \<and> CHR ''/'' \<notin> set (snd (Split path))
   \<and> (fst (Split path) = [] \<or> last (fst (Split path)) = CHR ''/'')
   \<and> dir_of ''nosep'' = ''/''
   \<and> dirIndexes (foldl FileIndex_Add NewFileIndex
        (map file_named [''/file1'', ''/dir1/file2'', ''/file3'', ''/dir2/file4'', ''nosep'']))
      = [0, 1, 0, 2, 0]
   \<and> pm_s (dirNames (foldl FileIndex_Add NewFileIndex
        (map file_named [''/file1'', ''/dir1/file2'', ''/file3'', ''/dir2/file4'', ''nosep''])))
      = [''/'', ''/dir1/'', ''/dir2/'']"
proof -
  have "fi_inv (foldl FileIndex_Add NewFileIndex files) (map Name files)"
    using fi_inv_foldl [OF fi_inv_New, of files] by simp
  then have general: "let fi = foldl FileIndex_Add NewFileIndex files; ps = map Name files
    in name fi = map (\<lambda>p. snd (Split p)) ps
     \<and> pm_s (dirNames fi) = rev (remdups (rev (map dir_of ps)))
     \<and> dirIndexes fi = map (\<lambda>p. of_nat (pos (dir_of p) (pm_s (dirNames fi)))) ps"
    by (simp add: fi_inv_def Let_def)
  have nosep: "dir_of ''nosep'' = ''/''"
    by code_simp
  from general Split_props [of path] nosep prefix_example show ?thesis
    by (intro conjI) (simp_all only: simp_thms)
qed

text \<open>
  C4, as the code has it. \<^verbatim>\<open>FileIndex.Add\<close> always appends the size to \<^verbatim>\<open>lsize\<close>, so for an
  index built by one or more calls of \<^verbatim>\<open>Add\<close>, \<^verbatim>\<open>Append\<close> adds these thirteen tags and ends with
  the 64-bit form, LONGFILESIZES (the sizes as a uint64 vector) and LONGSIZE (their sum as one
  uint64), whatever the sizes are; FILESIZES and SIZE are not emitted.
\<close>

theorem C4_Append_emits_long_sizes:
  "let f = foldl FileIndex_Add NewFileIndex (r # rs)
   in emitted (Append reg f hdr) = Some (sig_of hdr @
       [(RPMTAG_DIRNAMES reg, RPM_STRING_ARRAY_TYPE, TagString (pm_s (dirNames f)) (strings_len (pm_s (dirNames f)))),
        (RPMTAG_BASENAMES reg, RPM_STRING_ARRAY_TYPE, TagString (name f) (strings_len (name f))),
        (RPMTAG_FILEUSERNAME reg, RPM_STRING_ARRAY_TYPE, TagString (user f) (strings_len (user f))),
        (RPMTAG_FILEGROUPNAME reg, RPM_STRING_ARRAY_TYPE, TagString (group f) (strings_len (group f))),
        (RPMTAG_FILELINKTOS reg, RPM_STRING_ARRAY_TYPE, TagString (linkto f) (strings_len (linkto f))),
        (RPMTAG_FILEDIGESTS reg, RPM_STRING_ARRAY_TYPE, TagString (digest f) (strings_len (digest f))),
        (RPMTAG_DIRINDEXES reg, RPM_INT32_TYPE, TagUint32 (dirIndexes f)),
        (RPMTAG_FILEMTIMES reg, RPM_INT32_TYPE, TagUint32 (mtime f)),
        (RPMTAG_FILEMODES reg, RPM_INT16_TYPE, TagUint16 (mode f)),
        (RPMTAG_FILEFLAGS reg, RPM_INT32_TYPE, TagUint32 (flags f)),
        (RPMTAG_FILEVERIFYFLAGS reg, RPM_INT32_TYPE, TagUint32 (verify f)),
        (RPMTAG_LONGFILESIZES reg, RPM_INT64_TYPE, TagUint64 (map Size (r # rs))),
        (RPMTAG_LONGSIZE reg, RPM_INT64_TYPE, TagUint64 [sum_list (map Size (r # rs))])])"
proof -
  let ?f = "foldl FileIndex_Add NewFileIndex (r # rs)"
  have ls: "lsize ?f = Some (map Size (r # rs))"
    and tot: "rpmlsize ?f = sum_list (map Size (r # rs))"
    and nm: "name ?f \<noteq> []"
    using foldl_Add_sizes [of NewFileIndex "r # rs"]
    by (auto simp: NewFileIndex_def)
  from Append_long [OF ls nm, of reg hdr] show ?thesis
    unfolding Let_def tot by (auto simp: emitted_def)
qed

text \<open>
  C4 as the claim states it fails: one file of 5 bytes, a size that fits in a uint32, and
  \<^verbatim>\<open>Append\<close> still emits LONGFILESIZES (5008) and LONGSIZE (5009) with type INT64 (5), and
  neither FILESIZES (1028) nor SIZE (1009).
\<close>

theorem C4_small_file_counterexample:
  "map_option (map (\<lambda>(tg, ty, d). (tg, ty)))
     (emitted (Append rpm_registry
        (FileIndex_Add NewFileIndex ((file_named ''/etc/motd'')\<lparr>Size := 5\<rparr>)) new_Header))
     = Some [(1118, 8), (1117, 8), (1039, 8), (1040, 8), (1036, 8), (1035, 8), (1116, 4),
             (1034, 4), (1030, 3), (1037, 4), (1045, 4), (5008, 5), (5009, 5)]
   \<and> map_option (\<lambda>l. map (\<lambda>(tg, ty, d). d) (drop 11 l))
     (emitted (Append rpm_registry
        (FileIndex_Add NewFileIndex ((file_named ''/etc/motd'')\<lparr>Size := 5\<rparr>)) new_Header))
     = Some [TagUint64 [5], TagUint64 [5]]"
proof -
  let ?f = "FileIndex_Add NewFileIndex ((file_named ''/etc/motd'')\<lparr>Size := 5\<rparr>)"
  have ls: "lsize ?f = Some [5]" and nm: "name ?f \<noteq> []" and tot: "rpmlsize ?f = 5"
    by (simp_all add: FileIndex_Add_def NewFileIndex_def file_named_def append_nil_def split_beta)
  from Append_long [OF ls nm, of rpm_registry new_Header] show ?thesis
    by (auto simp: emitted_def sig_of_def new_Header_def rpm_registry_def type_codes tot)
qed

section \<open>The SCPIO trailer\<close>

lemma align4_aligned: "((x + 3) AND NOT 3) AND (3 :: 64 word) = 0"
  by (simp add: and.assoc)

lemma and_not_eq_minus_and: "(y :: 'a::len word) AND NOT m = y - (y AND m)"
proof -
  have "y - (y AND m) = y AND NOT (y AND m)"
    by (rule disjunctive_diff_eq_and_not) (simp add: bit_eq_iff bit_simps)
  also have "\<dots> = y AND NOT m"
    by (auto simp: bit_eq_iff bit_simps)
  finally show ?thesis by simp
qed

lemma align4_le3: "unat (((x + 3) AND NOT 3) - (x :: 64 word)) \<le> 3"
proof -
  have "(x + 3) AND NOT 3 = (x + 3) - ((x + 3) AND 3)"
    by (rule and_not_eq_minus_and)
  then have "((x + 3) AND NOT 3) - x = 3 - ((x + 3) AND 3)"
    by simp
  moreover have "(x + 3) AND 3 \<le> 3" by (rule word_and_le1)
  ultimately show ?thesis
    by (simp add: unat_sub)
qed

lemma trailer_literal:
  "trailer = bytes_of ''07070100000000000000000000000000000000000000010000000000000000000000000000000000000000000000000000000b00000000TRAILER!!!'' @ [0]"
  by (simp add: trailer_def newHeader_def newcMagic_def fmt16_def hexdigit_def trailer_name_def bytes_of_def)

lemma scpio_align_eq:
  "scpio_align \<lparr>sr = s, soff = x\<rparr> =
     (let k = unat (((x + 3) AND NOT 3) - x)
      in if length s < k then Inl scpio_errUnexpectedEOF
         else Inr \<lparr>sr = drop k s, soff = (x + 3) AND NOT 3\<rparr>)"
  by (auto simp: scpio_align_def Let_def min_def)

lemma magics_differ: "bytes_of newcMagic \<noteq> bytes_of scpioMagic"
  by (simp add: newcMagic_def scpioMagic_def bytes_of_def byte_of_char_def)

lemma length_trailer_name: "length trailer_name = 11"
  by (simp add: trailer_name_def bytes_of_def)

lemma scpio_trailer_eq:
  "scpio_trailer \<lparr>sr = s, soff = y\<rparr> =
    (let e = y + 105; k = unat (((e + 3) AND NOT 3) - e)
     in if length s < 105 then Inl (\<lparr>sr = s, soff = y\<rparr>, if s = [] then io_EOF else io_ErrUnexpectedEOF)
        else if drop 94 (take 105 s) \<noteq> trailer_name then Inl (\<lparr>sr = drop 105 s, soff = y\<rparr>, errInvalidTrailer)
        else if length s < 105 + k then Inl (\<lparr>sr = drop 105 s, soff = e\<rparr>, scpio_errUnexpectedEOF)
        else Inr \<lparr>sr = drop (105 + k) s, soff = (e + 3) AND NOT 3\<rparr>)"
  by (auto simp: scpio_trailer_def length_trailer_name ReadFull_def scpio_align_eq Let_def min_def add.commute)

lemma scpio_Next_newc:
  assumes h: "length h = 16" "take 6 h = bytes_of newcMagic"
    and p0: "length p0 = unat (((x + sz + 3) AND NOT 3) - (x + sz))"
  shows "scpio_Next \<lparr>sr = p0 @ h @ s, soff = x\<rparr> sz =
    (let a = (x + sz + 3) AND NOT 3; e = a + 16 + 105; k = unat (((e + 3) AND NOT 3) - e)
     in if length s < 105 then Inl (Errorf (a + 16) (if s = [] then io_EOF else io_ErrUnexpectedEOF))
        else if drop 94 (take 105 s) \<noteq> trailer_name then Inl (Errorf (a + 16) errInvalidTrailer)
        else if length s < 105 + k then Inl (Errorf e scpio_errUnexpectedEOF)
        else Inr (0, \<lparr>sr = drop (105 + k) s, soff = (e + 3) AND NOT 3\<rparr>))"
proof -
  define a where "a = (x + sz + 3) AND NOT 3"
  have al: "scpio_align \<lparr>sr = p0 @ h @ s, soff = x + sz\<rparr> = Inr \<lparr>sr = h @ s, soff = a\<rparr>"
    using p0 by (simp add: scpio_align_eq Let_def a_def)
  have rf: "ReadFull (h @ s) 16 = Inr (h, s)"
    using h by (simp add: ReadFull_def)
  have "scpio_Next \<lparr>sr = p0 @ h @ s, soff = x\<rparr> sz =
     (case scpio_trailer \<lparr>sr = s, soff = a + 16\<rparr> of
        Inl (r3, e) \<Rightarrow> Inl (Errorf (soff r3) e) | Inr r3 \<Rightarrow> Inr (0, r3))"
    using h magics_differ by (simp add: scpio_Next_def al rf)
  also have "\<dots> =
    (let e = a + 16 + 105; k = unat (((e + 3) AND NOT 3) - e)
     in if length s < 105 then Inl (Errorf (a + 16) (if s = [] then io_EOF else io_ErrUnexpectedEOF))
        else if drop 94 (take 105 s) \<noteq> trailer_name then Inl (Errorf (a + 16) errInvalidTrailer)
        else if length s < 105 + k then Inl (Errorf e scpio_errUnexpectedEOF)
        else Inr (0, \<lparr>sr = drop (105 + k) s, soff = (e + 3) AND NOT 3\<rparr>))"
    unfolding scpio_trailer_eq by (simp add: Let_def)
  finally show ?thesis
    unfolding a_def Let_def .
qed

lemma scpio_Next_inode0:
  "scpio_Next \<lparr>sr = bytes_of ''07070X00000000'' @ [0, 0] @ s, soff = 0\<rparr> 0
     = Inr (0, \<lparr>sr = s, soff = 16\<rparr>)"
proof -
  have "scpio_align \<lparr>sr = bytes_of ''07070X00000000'' @ [0, 0] @ s, soff = 0\<rparr>
      = Inr \<lparr>sr = bytes_of ''07070X00000000'' @ [0, 0] @ s, soff = 0\<rparr>"
    by (simp add: scpio_align_eq)
  moreover have "ReadFull (bytes_of ''07070X00000000'' @ [0, 0] @ s) 16
      = Inr (bytes_of ''07070X00000000'' @ [0, 0], s)"
    by (simp add: ReadFull_def bytes_of_def)
  moreover have "hex_Decode (take 8 (drop 6 (bytes_of ''07070X00000000'' @ [0, 0]))) = Inr [0, 0, 0, 0]"
    by (simp add: bytes_of_def byte_of_char_def fromHexChar_def)
  moreover have "be_val [0, 0, 0, 0 :: byte] = (0 :: u32)"
    by (simp add: be_val_def)
  moreover have "take 6 (bytes_of ''07070X00000000'' @ [0, 0]) = bytes_of scpioMagic"
    by (simp add: bytes_of_def scpioMagic_def)
  ultimately show ?thesis
    by (simp add: scpio_Next_def bytes_of_def)
qed

text \<open>
  C3, as the code has it. After a 16-byte header whose magic is \<^verbatim>\<open>070701\<close> the reader asks for
  105 more bytes (\<^verbatim>\<open>tl-2\<close> with \<^verbatim>\<open>tl = 8*12 + 11\<close>; with the 16 read before they are the 121
  bytes of the trailer that the writer emits). Fewer bytes are a read error; when the last
  11 of the 105 are not \<^verbatim>\<open>TRAILER!!!\0\<close> the error is \<^verbatim>\<open>errInvalidTrailer\<close>; otherwise the offset
  advances by 105 and is aligned to 4, discarding the padding; when the stream ends before the
  padding does (as after the bare 121 bytes of a trailer, which want 3 more), the error is the
  reader's own \<^verbatim>\<open>errUnexpectedEOF\<close> at the offset before the padding. The result is then inode 0
  and a nil error, which is also what the header of a record with inode 0 returns.
\<close>

theorem C3_trailer_reads_105:
  assumes "length h = 16" and "take 6 h = bytes_of newcMagic"
    and "length p0 = unat (((x + sz + 3) AND NOT 3) - (x + sz))"
  shows "scpio_Next \<lparr>sr = p0 @ h @ s, soff = x\<rparr> sz =
    (let a = (x + sz + 3) AND NOT 3; e = a + 16 + 105; k = unat (((e + 3) AND NOT 3) - e)
     in if length s < 105 then Inl (Errorf (a + 16) (if s = [] then io_EOF else io_ErrUnexpectedEOF))
        else if drop 94 (take 105 s) \<noteq> trailer_name then Inl (Errorf (a + 16) errInvalidTrailer)
        else if length s < 105 + k then Inl (Errorf e scpio_errUnexpectedEOF)
        else Inr (0, \<lparr>sr = drop (105 + k) s, soff = (e + 3) AND NOT 3\<rparr>))
   \<and> (((x + sz + 3) AND NOT 3) + 16 + 105 + 3 AND NOT 3) AND 3 = 0
   \<and> scpio_Next \<lparr>sr = bytes_of ''07070X00000000'' @ [0, 0] @ s, soff = 0\<rparr> 0
        = Inr (0, \<lparr>sr = s, soff = 16\<rparr>)"
  using scpio_Next_newc [OF assms, of s] align4_aligned [of "((x + sz + 3) AND NOT 3) + 16 + 105"]
    scpio_Next_inode0 [of s]
  by (simp only: simp_thms)

lemma trailer_split:
  "take 16 trailer = bytes_of ''0707010000000000''"
  "drop 16 trailer = bytes_of ''0000000000000000000000000000010000000000000000000000000000000000000000000000000000000b00000000TRAILER!!!'' @ [0]"
  by (simp_all add: trailer_literal bytes_of_def)

theorem C3_trailer_reads_105_witness:
  "length (take 16 trailer) = 16 \<and> take 6 (take 16 trailer) = bytes_of newcMagic
   \<and> scpio_Next \<lparr>sr = take 16 trailer @ drop 16 trailer @ [0, 0, 0, 0xAA], soff = 0\<rparr> 0
       = Inr (0, \<lparr>sr = [0xAA], soff = 124\<rparr>)"
proof -
  have h1: "length (take 16 trailer) = 16"
    by (simp add: trailer_split bytes_of_def)
  have h2: "take 6 (take 16 trailer) = bytes_of newcMagic"
    by (simp add: trailer_split bytes_of_def newcMagic_def)
  have h3: "length ([] :: byte list) = unat ((((0 :: 64 word) + 0 + 3) AND NOT 3) - (0 + 0))"
    by simp
  define s :: "byte list" where "s = drop 16 trailer @ [0, 0, 0, 0xAA]"
  have tn: "drop 94 (take 105 s) = trailer_name"
    by (simp add: s_def trailer_split bytes_of_def trailer_name_def)
  have len: "length s = 109"
    by (simp add: s_def trailer_split bytes_of_def)
  have dr: "drop 108 s = [0xAA]"
    by (simp add: s_def trailer_split bytes_of_def)
  from C3_trailer_reads_105 [OF h1 h2 h3, of s]
  have "scpio_Next \<lparr>sr = take 16 trailer @ s, soff = 0\<rparr> 0
       = Inr (0, \<lparr>sr = [0xAA], soff = 124\<rparr>)"
    by (simp add: tn len dr Let_def)
  with h1 h2 show ?thesis unfolding s_def by simp
qed

text \<open>
  C3 as the claim states it fails: a header with magic \<^verbatim>\<open>070701\<close> followed by exactly 88 bytes
  that end with \<^verbatim>\<open>TRAILER!!!\0\<close> is not accepted; the reader wants 105 bytes and fails with
  \<^verbatim>\<open>io.ErrUnexpectedEOF\<close> at offset 16.
\<close>

theorem C3_88_bytes_counterexample:
  "length (replicate 77 (0x30 :: byte) @ trailer_name) = 88
   \<and> scpio_Next \<lparr>sr = bytes_of ''0707010000000000'' @ replicate 77 0x30 @ trailer_name, soff = 0\<rparr> 0
     = Inl (Errorf 16 io_ErrUnexpectedEOF)"
  using scpio_Next_newc [of "bytes_of ''0707010000000000''" "[]" 0 0 "replicate 77 0x30 @ trailer_name"]
  by (simp add: newcMagic_def bytes_of_def length_trailer_name)

section \<open>Big-endian values\<close>

lemma be_step:
  "push_bit 8 (drop_bit (8 + m) w) OR ucast (ucast (drop_bit m w) :: byte) = drop_bit m (w :: 'a::len word)"
  by (rule bit_word_eqI) (auto simp: bit_simps)

lemma be_val_be16: "be_val (be16 w) = w"
proof -
  have s8: "ucast (ucast (drop_bit 8 w) :: byte) = drop_bit 8 (w :: u16)"
    using be_step [of 8 w] by simp
  have s0: "push_bit 8 (drop_bit 8 w) OR ucast (ucast w :: byte) = (w :: u16)"
    using be_step [of 0 w] by simp
  show ?thesis
    unfolding be_val_def be16_def by (simp add: s8 s0)
qed

lemma be_val_be32: "be_val (be32 w) = w"
proof -
  have s24: "ucast (ucast (drop_bit 24 w) :: byte) = drop_bit 24 (w :: u32)"
    using be_step [of 24 w] by simp
  have s16: "push_bit 8 (drop_bit 24 w) OR ucast (ucast (drop_bit 16 w) :: byte) = drop_bit 16 (w :: u32)"
    using be_step [of 16 w] by simp
  have s8: "push_bit 8 (drop_bit 16 w) OR ucast (ucast (drop_bit 8 w) :: byte) = drop_bit 8 (w :: u32)"
    using be_step [of 8 w] by simp
  have s0: "push_bit 8 (drop_bit 8 w) OR ucast (ucast w :: byte) = (w :: u32)"
    using be_step [of 0 w] by simp
  show ?thesis
    unfolding be_val_def be32_def by (simp add: s24 s16 s8 s0)
qed

lemma be_val_be64: "be_val (be64 w) = w"
proof -
  have s56: "ucast (ucast (drop_bit 56 w) :: byte) = drop_bit 56 (w :: u64)"
    using be_step [of 56 w] by simp
  have s48: "push_bit 8 (drop_bit 56 w) OR ucast (ucast (drop_bit 48 w) :: byte) = drop_bit 48 (w :: u64)"
    using be_step [of 48 w] by simp
  have s40: "push_bit 8 (drop_bit 48 w) OR ucast (ucast (drop_bit 40 w) :: byte) = drop_bit 40 (w :: u64)"
    using be_step [of 40 w] by simp
  have s32: "push_bit 8 (drop_bit 40 w) OR ucast (ucast (drop_bit 32 w) :: byte) = drop_bit 32 (w :: u64)"
    using be_step [of 32 w] by simp
  have s24: "push_bit 8 (drop_bit 32 w) OR ucast (ucast (drop_bit 24 w) :: byte) = drop_bit 24 (w :: u64)"
    using be_step [of 24 w] by simp
  have s16: "push_bit 8 (drop_bit 24 w) OR ucast (ucast (drop_bit 16 w) :: byte) = drop_bit 16 (w :: u64)"
    using be_step [of 16 w] by simp
  have s8: "push_bit 8 (drop_bit 16 w) OR ucast (ucast (drop_bit 8 w) :: byte) = drop_bit 8 (w :: u64)"
    using be_step [of 8 w] by simp
  have s0: "push_bit 8 (drop_bit 8 w) OR ucast (ucast w :: byte) = (w :: u64)"
    using be_step [of 0 w] by simp
  show ?thesis
    unfolding be_val_def be64_def by (simp add: s56 s48 s40 s32 s24 s16 s8 s0)
qed

lemma length_be [simp]: "length (be16 a) = 2" "length (be32 b) = 4" "length (be64 c) = 8"
  by (simp_all add: be16_def be32_def be64_def)

lemma chunks_be16: "map be_val (chunks 2 (length ws) (concat (map be16 ws) @ rest)) = ws"
  by (induction ws) (simp_all add: be_val_be16)

lemma chunks_be32: "map be_val (chunks 4 (length ws) (concat (map be32 ws) @ rest)) = ws"
  by (induction ws) (simp_all add: be_val_be32)

lemma chunks_be64: "map be_val (chunks 8 (length ws) (concat (map be64 ws) @ rest)) = ws"
  by (induction ws) (simp_all add: be_val_be64)

lemma th_parse_bytes: "th_parse (th_bytes t @ rest) = th_of t"
  by (simp add: th_parse_def th_bytes_def th_of_def be_val_be32)


section \<open>The empty header\<close>

lemma align_aligned:
  assumes "x AND m = (0 :: 'a::len word)"
  shows "(x + m) AND NOT m = x"
proof -
  have "x + m = x OR m"
    using assms by (rule disjunctive_add_eq_or)
  moreover have "(x OR m) AND NOT m = x"
    using assms by (auto simp: bit_eq_iff bit_simps)
  ultimately show ?thesis by simp
qed

lemma Reader_align_aligned:
  assumes "roff r AND 7 = 0"
  shows "Reader_align r = Inr r"
proof -
  have "(roff r + 7) AND NOT 7 = roff r"
    using assms by (rule align_aligned)
  then show ?thesis
    by (simp add: Reader_align_def Let_def)
qed

lemma Reader_header_ok:
  "Reader_header \<lparr>rr = rpmHeaderMagic @ be32 c @ be32 len @ rest, roff = x\<rparr> =
     Inr (\<lparr>Magic = rpmHeaderMagic, HCount = c, Length = len, off = 0, region = None, Tags = []\<rparr>,
          \<lparr>rr = rest, roff = x + 16\<rparr>)"
proof -
  have l: "length rpmHeaderMagic = 8" by (simp add: rpmHeaderMagic_def)
  have "ReadFull (rpmHeaderMagic @ be32 c @ be32 len @ rest) 16
      = Inr (rpmHeaderMagic @ be32 c @ be32 len, rest)"
    by (simp add: ReadFull_def l)
  then show ?thesis
    using be_val_be32
    by (simp add: Reader_header_def l new_Header_def tagSize_def)
qed

text \<open>
  C10. On an input that starts with the header magic and a tag count of 0, \<^verbatim>\<open>Next\<close> succeeds
  (for a new reader and for every reader whose offset is a multiple of 8): the header has no
  tags and no region, whatever the declared length is. \<^verbatim>\<open>WriteTo\<close> refuses that header with
  \<^verbatim>\<open>errNoTags\<close>.
\<close>

theorem C10_empty_header_asymmetry:
  "Next reg srt \<lparr>rr = rpmHeaderMagic @ be32 0 @ be32 len @ rest, roff = y AND NOT 7\<rparr> =
     Inr (\<lparr>Magic = rpmHeaderMagic, HCount = 0, Length = len, off = 0, region = None, Tags = []\<rparr>,
          \<lparr>rr = rest, roff = (y AND NOT 7) + 16\<rparr>)
   \<and> Next reg srt (NewReader (rpmHeaderMagic @ be32 0 @ be32 len @ rest)) =
     Inr (\<lparr>Magic = rpmHeaderMagic, HCount = 0, Length = len, off = 0, region = None, Tags = []\<rparr>,
          \<lparr>rr = rest, roff = 16\<rparr>)
   \<and> WriteTo srt \<lparr>Magic = rpmHeaderMagic, HCount = 0, Length = len, off = 0, region = None,
                    Tags = []\<rparr> = Inl (New errNoTags)"
proof -
  have a: "(y AND NOT 7) AND 7 = (0 :: 64 word)"
    by (simp add: and.assoc)
  have 1: "Next reg srt \<lparr>rr = rpmHeaderMagic @ be32 0 @ be32 len @ rest, roff = x\<rparr> =
     Inr (\<lparr>Magic = rpmHeaderMagic, HCount = 0, Length = len, off = 0, region = None, Tags = []\<rparr>,
          \<lparr>rr = rest, roff = x + 16\<rparr>)" if "x AND 7 = 0" for x
    using that by (simp add: Next_def Reader_align_aligned Reader_header_ok)
  have 2: "WriteTo srt \<lparr>Magic = rpmHeaderMagic, HCount = 0, Length = len, off = 0, region = None,
                    Tags = []\<rparr> = Inl (New errNoTags)"
    by (simp add: WriteTo_def)
  from 1 [OF a] 1 [of 0] 2 show ?thesis
    by (simp add: NewReader_def)
qed

section \<open>Serialized headers\<close>


lemma flat_Cons [simp]: "flat ((z, b) # ps) = z @ b @ flat ps" and flat_Nil [simp]: "flat [] = []"
  by (simp_all add: flat_def)


lemma length_th_bytes [simp]: "length (th_bytes t) = 16"
  by (simp add: th_bytes_def)

lemma length_pre_bytes: "length (Magic p) = 8 \<Longrightarrow> length (pre_bytes p) = 16"
  by (simp add: pre_bytes_def)




lemma th_parse_th_bytes: "th_parse (th_bytes t) = th_of t"
  using th_parse_bytes [of t "[]"] by simp


lemma makeHdr_eq: "makeHdr = Inr (new_Header\<lparr>off := 67, Tags := scenario_tags\<rparr>)"
  by (simp add: makeHdr_def bindE_def AddString_def AddStringI18N_def addString_def
      AddStringArray_def AddInt16_def AddInt32_def AddInt64_def AddBin_def Add_def Let_def
      new_tag_def type_codes align_def new_Header_def scenario_tags_def bytes_of_def)






section \<open>Reading a header from its bytes\<close>

lemma th_of_tagHeader [simp]: "th_of (e :: tagHeader) = e"
  by (simp add: th_of_def)

lemma th_of_entry_tag [simp]: "th_of (entry_tag i e) = e"
  by (simp add: th_of_def entry_tag_def)

lemma entry_tags_Nil [simp]: "entry_tags i [] = []"
  by (simp add: entry_tags_def)

lemma entry_tags_Cons: "entry_tags i (e # es) = entry_tag i e # entry_tags (Suc i) es"
  by (simp add: entry_tags_def upt_rec)

lemma length_entry_tags [simp]: "length (entry_tags i es) = length es"
  by (simp add: entry_tags_def)

lemma entry_tags_eq_Nil [simp]: "entry_tags i es = [] \<longleftrightarrow> es = []"
  by (cases es) (simp_all add: entry_tags_Cons)

lemma map_th_of_entry_tags [simp]: "map th_of (entry_tags i es) = es"
  by (induction es arbitrary: i) (simp_all add: entry_tags_Cons)

lemma ReadFull_th_bytes: "ReadFull (th_bytes e @ s) 16 = Inr (th_bytes e, s)"
  by (simp add: ReadFull_def)

lemma Reader_tags_good:
  assumes "\<forall>e\<in>set es. Offset e \<le> len"
  shows "Reader_tags (length es) i len \<lparr>rr = concat (map th_bytes es) @ d, roff = x\<rparr> acc
         = Inr (acc @ entry_tags i es, \<lparr>rr = d, roff = x + of_nat (16 * length es)\<rparr>)"
  using assms
proof (induction es arbitrary: i x acc)
  case Nil
  then show ?case by simp
next
  case (Cons e es)
  have p: "th_parse (th_bytes e) = e"
    by (simp add: th_parse_th_bytes)
  from Cons.prems have le: "\<not> len < Offset e" and rest: "\<forall>e\<in>set es. Offset e \<le> len"
    by (simp_all add: not_less)
  show ?case
    using Cons.IH [OF rest, of "Suc i" "x + 16" "acc @ [entry_tag i e]"] le
    by (simp add: ReadFull_th_bytes p Let_def entry_tags_Cons entry_tag_def tagSize_def
        add.assoc add.commute)
qed

lemma Reader_tags_bad:
  fixes good :: "tagHeader list" and bad :: tagHeader
  assumes "\<forall>e\<in>set good. Offset e \<le> len" and "len < Offset bad"
  shows "Reader_tags (Suc (length good + k)) i len
           \<lparr>rr = concat (map th_bytes good) @ th_bytes bad @ d, roff = x\<rparr> acc
         = Inl (OffsetError (x + of_nat (16 * length good)) (TagError bad (New errOffsetOOB)))"
  using assms
proof (induction good arbitrary: i x acc)
  case Nil
  have p: "th_parse (th_bytes bad) = bad"
    by (simp add: th_parse_th_bytes)
  from Nil show ?case
    by (simp add: ReadFull_th_bytes p Let_def th_of_def)
next
  case (Cons e es)
  have p: "th_parse (th_bytes e) = e"
    by (simp add: th_parse_th_bytes)
  from Cons.prems have le: "\<not> len < Offset e" and rest: "\<forall>e\<in>set es. Offset e \<le> len"
    by (simp_all add: not_less)
  show ?case
    using Cons.IH [OF rest Cons.prems(2), of "Suc i" "x + 16" "acc @ [entry_tag i e]"] le
    by (simp add: ReadFull_th_bytes p Let_def entry_tag_def tagSize_def add.assoc add.commute)
qed

lemma unat_length:
  assumes "length (es :: 'a list) < 2 ^ 32"
  shows "unat (of_nat (length es) :: u32) = length es"
  using assms by (simp add: unat_of_nat)

lemma hdr_pre_simps [simp]:
  "HCount (hdr_pre n len) = of_nat n" "Length (hdr_pre n len) = len"
  by (simp_all add: hdr_pre_def)

lemma Next_after_header:
  assumes x: "x AND 7 = 0" and n: "length es < 2 ^ 32"
  shows "Next reg srt \<lparr>rr = header_input es len d, roff = x\<rparr> =
    (case Reader_tags (length es) 0 len \<lparr>rr = concat (map th_bytes es) @ d, roff = x + 16\<rparr> [] of
       Inl e \<Rightarrow> Inl e
     | Inr (ts, r3) \<Rightarrow>
         if length ts = 0 then Inr ((hdr_pre (length es) len)\<lparr>Tags := ts\<rparr>, r3)
         else (case Next_loop len (of_nat (length es)) 0 (srt ts) r3 of
                 Inl e \<Rightarrow> Inl e
               | Inr (ts', r4) \<Rightarrow> Inr (finish reg (hdr_pre (length es) len) ts', r4)))"
proof -
  have a: "Reader_align \<lparr>rr = header_input es len d, roff = x\<rparr> = Inr \<lparr>rr = header_input es len d, roff = x\<rparr>"
    using x by (simp add: Reader_align_aligned)
  have h: "Reader_header \<lparr>rr = header_input es len d, roff = x\<rparr> =
     Inr (hdr_pre (length es) len, \<lparr>rr = concat (map th_bytes es) @ d, roff = x + 16\<rparr>)"
    unfolding header_input_def hdr_pre_def by (rule Reader_header_ok)
  show ?thesis
    by (auto simp: Next_def a h unat_length [OF n] finish_def Let_def
        simp del: Reader_tags.simps Next_loop.simps
        split: sum.splits prod.splits)
qed

lemma Next_input_good:
  assumes x: "x AND 7 = 0" and n: "length es < 2 ^ 32" and ok: "\<forall>e\<in>set es. Offset e \<le> len"
  shows "Next reg srt \<lparr>rr = header_input es len d, roff = x\<rparr> =
    (if es = [] then Inr (hdr_pre 0 len, \<lparr>rr = d, roff = x + 16\<rparr>)
     else case Next_loop len (of_nat (length es)) 0 (srt (entry_tags 0 es))
                 \<lparr>rr = d, roff = x + 16 + of_nat (16 * length es)\<rparr> of
            Inl e \<Rightarrow> Inl e
          | Inr (ts', r4) \<Rightarrow> Inr (finish reg (hdr_pre (length es) len) ts', r4))"
  unfolding Next_after_header [OF x n] Reader_tags_good [OF ok]
  by (auto simp: hdr_pre_def)

lemma Next_input_bad:
  fixes good :: "tagHeader list"
  assumes x: "x AND 7 = 0" and n: "length (good @ bad # others) < 2 ^ 32"
    and ok: "\<forall>e\<in>set good. Offset e \<le> len" and bad: "len < Offset bad"
  shows "Next reg srt \<lparr>rr = header_input (good @ bad # others) len d, roff = x\<rparr> =
    Inl (OffsetError (x + 16 + of_nat (16 * length good)) (TagError bad (New errOffsetOOB)))"
proof -
  have c: "concat (map th_bytes (good @ bad # others)) @ d
      = concat (map th_bytes good) @ th_bytes bad @ (concat (map th_bytes others) @ d)"
    by simp
  have l: "length (good @ bad # others) = Suc (length good + length others)"
    by simp
  show ?thesis
    unfolding Next_after_header [OF x n] c l Reader_tags_bad [OF ok bad]
    by simp
qed

lemma tagaligned_roff: "roff r = roff r' \<Longrightarrow> tagaligned r v = tagaligned r' v"
  by (simp add: tagaligned_def)

lemma make_th_of: "make v a b = Inr v1 \<Longrightarrow> th_of v1 = th_of v"
  by (auto simp: make_def Let_def th_of_def split: if_splits)

lemma read_tag_Inr:
  assumes "read_tag v nt r = Inr (v2, r1)"
  shows "Offset v < nt \<and> roff r1 = roff r + of_nat (unat (nt - Offset v)) \<and> th_of v2 = th_of v"
proof -
  from assms have lt: "Offset v < nt"
    by (auto simp: read_tag_def not_le split: if_splits)
  from assms lt obtain v1 where m: "make v (Offset v) nt = Inr v1"
    by (auto simp: read_tag_def Let_def split: sum.splits if_splits)
  from assms lt m obtain d w N' s' where
    rd: "data_ReadFrom (data v1) (unat (nt - Offset v)) (rr r) = Inr (d, w, N', s')"
    by (auto simp: read_tag_def Let_def split: sum.splits if_splits)
  from assms lt m rd have "unat (nt - Offset v) = w + min N' (length s')"
    and "v2 = v1\<lparr>data := d, toff := roff r\<rparr>"
    and "r1 = r\<lparr>rr := drop (min N' (length s')) s', roff := roff r + of_nat (w + min N' (length s'))\<rparr>"
    by (auto simp: read_tag_def Let_def split: if_splits)
  with lt make_th_of [OF m] show ?thesis
    by (simp add: th_of_def)
qed

lemma Next_loop_Cons_Inr:
  assumes "Next_loop len cnt i (v # vs) r = Inr (ts, r')"
  obtains nt v2 r1 ts0 where
    "tagaligned r v"
    "next_offset len cnt i vs = Inr nt"
    "read_tag v nt r = Inr (v2, r1)"
    "Next_loop len cnt (Suc i) vs r1 = Inr (ts0, r')"
    "ts = v2 # ts0"
  using assms
  by (auto split: if_splits sum.splits prod.splits)

lemma next_offset_Inr:
  assumes "next_offset len cnt i vs = Inr nt" and "i + length (v # vs) = unat cnt"
  shows "nt = (if vs = [] then len else Offset (hd vs))"
proof (cases vs)
  case Nil
  with assms(2) have "int i = int (unat cnt) - 1" by (simp del: of_nat_unat)
  with assms(1) Nil show ?thesis by (simp add: next_offset_def del: of_nat_unat)
next
  case (Cons a list)
  with assms(2) have "int i \<noteq> int (unat cnt) - 1" by (simp del: of_nat_unat)
  with assms(1) Cons show ?thesis by (simp add: next_offset_def del: of_nat_unat)
qed

lemma Next_loop_success:
  assumes "Next_loop len cnt i vs r = Inr (ts, r')" and "i + length vs = unat cnt" and "vs \<noteq> []"
  shows "sorted_wrt (<) (map Offset vs) \<and> Offset (last vs) < len
     \<and> (\<forall>v\<in>set vs. tagaligned \<lparr>rr = [], roff = roff r + of_nat (unat (Offset v) - unat (Offset (hd vs)))\<rparr> v)"
  using assms
proof (induction vs arbitrary: i r ts)
  case Nil
  then show ?case by simp
next
  case (Cons v vs)
  from Cons.prems(1) obtain nt v2 r1 ts0 where
    al: "tagaligned r v"
    and no: "next_offset len cnt i vs = Inr nt"
    and rt: "read_tag v nt r = Inr (v2, r1)"
    and rec: "Next_loop len cnt (Suc i) vs r1 = Inr (ts0, r')"
    by (rule Next_loop_Cons_Inr)
  from next_offset_Inr [OF no Cons.prems(2)]
  have nt: "nt = (if vs = [] then len else Offset (hd vs))" .
  from read_tag_Inr [OF rt] have lt: "Offset v < nt"
    and r1: "roff r1 = roff r + of_nat (unat (nt - Offset v))" by simp_all
  have al0: "tagaligned \<lparr>rr = [], roff = roff r + of_nat (unat (Offset v) - unat (Offset v))\<rparr> v"
    using al by (simp add: tagaligned_def)
  show ?case
  proof (cases "vs = []")
    case True
    with nt lt al0 show ?thesis by simp
  next
    case False
    with nt have nt': "nt = Offset (hd vs)" by simp
    from Cons.prems(2) have len': "Suc i + length vs = unat cnt" by simp
    from Cons.IH [OF rec len' False]
    have so: "sorted_wrt (<) (map Offset vs)" and la: "Offset (last vs) < len"
      and ta: "\<forall>v'\<in>set vs. tagaligned \<lparr>rr = [], roff = roff r1 + of_nat (unat (Offset v') - unat (Offset (hd vs)))\<rparr> v'"
      by simp_all
    have hdmin: "\<forall>v'\<in>set vs. Offset (hd vs) \<le> Offset v'"
      using so False by (cases vs) (auto simp: less_imp_le)
    have lts: "\<forall>v'\<in>set vs. Offset v < Offset v'"
      using hdmin lt nt' by (auto intro: less_le_trans)
    have wn: "unat (nt - Offset v) = unat (Offset (hd vs)) - unat (Offset v)"
      using lt nt' by (simp add: unat_sub less_imp_le)
    have ta': "tagaligned \<lparr>rr = [], roff = roff r + of_nat (unat (Offset v') - unat (Offset v))\<rparr> v'"
      if "v' \<in> set vs" for v'
    proof -
      from that hdmin have "unat (Offset (hd vs)) \<le> unat (Offset v')"
        by (simp add: word_le_nat_alt)
      moreover from lt nt' have "unat (Offset v) \<le> unat (Offset (hd vs))"
        by (simp add: word_less_nat_alt)
      ultimately have "(unat (Offset (hd vs)) - unat (Offset v)) + (unat (Offset v') - unat (Offset (hd vs)))
          = unat (Offset v') - unat (Offset v)" by simp
      then have E: "roff r1 + of_nat (unat (Offset v') - unat (Offset (hd vs)))
          = roff r + of_nat (unat (Offset v') - unat (Offset v))"
        unfolding r1 wn by (simp only: add.assoc flip: of_nat_add)
      from ta that have "tagaligned \<lparr>rr = [], roff = roff r1 + of_nat (unat (Offset v') - unat (Offset (hd vs)))\<rparr> v'"
        by blast
      then show ?thesis unfolding E .
    qed
    show ?thesis
      using so la lts al0 ta' False by auto
  qed
qed

lemma and_1_dvd: "(w :: 'a::len word) AND 1 = 0 \<longleftrightarrow> 2 dvd unat w"
  using and_mask_dvd_nat [of 1 w] by (simp add: mask_eq_exp_minus_1)

lemma and_3_dvd: "(w :: 'a::len word) AND 3 = 0 \<longleftrightarrow> 4 dvd unat w"
  using and_mask_dvd_nat [of 2 w] by (simp add: mask_eq_exp_minus_1)

lemma and_7_dvd: "(w :: 'a::len word) AND 7 = 0 \<longleftrightarrow> 8 dvd unat w"
  using and_mask_dvd_nat [of 3 w] by (simp add: mask_eq_exp_minus_1)

lemma dvd_unat_add:
  assumes "m dvd 8" and "8 dvd unat (a :: 64 word)"
  shows "m dvd unat (a + of_nat k) \<longleftrightarrow> m dvd k"
proof -
  have m64: "m dvd (2 ^ 64 :: nat)"
    using assms(1) by (rule dvd_trans) simp
  have ma: "m dvd unat a"
    using assms by (rule dvd_trans)
  have "unat (a + of_nat k) = (unat a + k mod 2 ^ 64) mod 2 ^ 64"
    by (simp add: unat_word_ariths unat_of_nat)
  then have "m dvd unat (a + of_nat k) \<longleftrightarrow> m dvd (unat a + k mod 2 ^ 64)"
    using m64 by (simp add: dvd_mod_iff)
  also have "\<dots> \<longleftrightarrow> m dvd k mod 2 ^ 64"
    using ma by (simp add: dvd_add_right_iff)
  also have "\<dots> \<longleftrightarrow> m dvd k"
    using m64 by (simp add: dvd_mod_iff)
  finally show ?thesis .
qed

lemma dvd_diff_iff:
  assumes "m dvd 8" and "8 dvd (b :: nat)" and "b \<le> c"
  shows "m dvd (c - b) \<longleftrightarrow> m dvd c"
proof -
  from assms(1,2) have "m dvd b" by (rule dvd_trans)
  then have "m dvd ((c - b) + b) \<longleftrightarrow> m dvd (c - b)"
    by (rule dvd_add_left_iff)
  with assms(3) show ?thesis by simp
qed

lemma tagaligned_iff:
  assumes a: "8 dvd unat a" and b: "8 dvd unat (Offset e0)" and le: "Offset e0 \<le> Offset v"
  shows "tagaligned \<lparr>rr = [], roff = a + of_nat (unat (Offset v) - unat (Offset e0))\<rparr> v
     \<longleftrightarrow> \<not> misaligned v"
proof -
  from le have le': "unat (Offset e0) \<le> unat (Offset v)" by (simp add: word_le_nat_alt)
  have 2: "2 dvd unat (a + of_nat (unat (Offset v) - unat (Offset e0))) \<longleftrightarrow> 2 dvd unat (Offset v)"
    using dvd_unat_add [of 2, OF _ a] dvd_diff_iff [of 2, OF _ b le'] by simp
  have 4: "4 dvd unat (a + of_nat (unat (Offset v) - unat (Offset e0))) \<longleftrightarrow> 4 dvd unat (Offset v)"
    using dvd_unat_add [of 4, OF _ a] dvd_diff_iff [of 4, OF _ b le'] by simp
  have 8: "8 dvd unat (a + of_nat (unat (Offset v) - unat (Offset e0))) \<longleftrightarrow> 8 dvd unat (Offset v)"
    using dvd_unat_add [of 8, OF _ a] dvd_diff_iff [of 8, OF _ b le'] by simp
  show ?thesis
    by (auto simp: tagaligned_def misaligned_def and_1_dvd and_3_dvd and_7_dvd 2 4 8 type_codes)
qed

lemma sorted_le_last: "sorted xs \<Longrightarrow> x \<in> set xs \<Longrightarrow> x \<le> last xs"
  by (induction xs) (auto simp: last_ConsR)

lemma sorted_hd_le: "sorted xs \<Longrightarrow> x \<in> set xs \<Longrightarrow> hd xs \<le> x"
  by (cases xs) auto

lemma x_dvd:
  assumes "(x :: 64 word) AND 7 = 0"
  shows "8 dvd unat (x + 16 + of_nat (16 * k))"
proof -
  from assms have "8 dvd unat x" by (simp add: and_7_dvd)
  then have "8 dvd unat (x + of_nat (16 + 16 * k)) \<longleftrightarrow> 8 dvd (16 + 16 * k)"
    by (rule dvd_unat_add [OF dvd_refl])
  then show ?thesis by (simp add: add.assoc)
qed

lemma Next_Inr_entries:
  assumes srt: "sorts_by_Offset srt" and x: "x AND 7 = 0" and n: "length es < 2 ^ 32"
    and ok: "Next reg srt \<lparr>rr = header_input es len d, roff = x\<rparr> = Inr (hdr, r')"
    and ne: "es \<noteq> []"
  shows "distinct (map Offset es) \<and> (\<forall>e\<in>set es. Offset e < len)
    \<and> ((\<exists>e0\<in>set es. 8 dvd unat (Offset e0) \<and> (\<forall>e\<in>set es. Offset e0 \<le> Offset e))
        \<longrightarrow> (\<forall>e\<in>set es. \<not> misaligned e))"
proof -
  have le: "\<forall>e\<in>set es. Offset e \<le> len"
  proof (rule ccontr)
    assume "\<not> (\<forall>e\<in>set es. Offset e \<le> len)"
    then have "\<exists>e\<in>set es. len < Offset e" by (simp add: not_le)
    then obtain good bad others where es: "es = good @ bad # others"
      and bad: "len < Offset bad" and good: "\<forall>e\<in>set good. \<not> len < Offset e"
      using split_list_first_prop [of es "\<lambda>e. len < Offset e"] by blast
    from good have good': "\<forall>e\<in>set good. Offset e \<le> len" by (simp add: not_less)
    have "Next reg srt \<lparr>rr = header_input (good @ bad # others) len d, roff = x\<rparr> =
      Inl (OffsetError (x + 16 + of_nat (16 * length good)) (TagError bad (New errOffsetOOB)))"
      using x n [unfolded es] good' bad by (rule Next_input_bad)
    with ok show False by (simp add: es)
  qed
  let ?r3 = "\<lparr>rr = d, roff = x + 16 + of_nat (16 * length es)\<rparr>"
  let ?vs = "srt (entry_tags 0 es)"
  from ok ne obtain ts' r4 where
    loop: "Next_loop len (of_nat (length es)) 0 ?vs ?r3 = Inr (ts', r4)"
    unfolding Next_input_good [OF x n le]
    by (auto split: sum.splits)
  from srt have ms: "mset ?vs = mset (entry_tags 0 es)" and so: "sorted (map Offset ?vs)"
    by (simp_all add: sorts_by_Offset_def)
  from ms have lv: "length ?vs = length es"
    using mset_eq_length by fastforce
  with ne have vne: "?vs \<noteq> []" by auto
  have cnt: "0 + length ?vs = unat (of_nat (length es) :: u32)"
    by (simp add: lv unat_length [OF n])
  from Next_loop_success [OF loop cnt vne]
  have ss: "sorted_wrt (<) (map Offset ?vs)" and la: "Offset (last ?vs) < len"
    and ta: "\<forall>v\<in>set ?vs. tagaligned \<lparr>rr = [], roff = roff ?r3 + of_nat (unat (Offset v) - unat (Offset (hd ?vs)))\<rparr> v"
    by simp_all
  have mo: "mset (map Offset ?vs) = mset (map Offset es)"
  proof -
    have "mset (map th_of ?vs) = mset (map th_of (entry_tags 0 es))"
      using ms by (metis mset_map)
    then have "mset (map Offset (map th_of ?vs)) = mset (map Offset es)"
      by (metis map_th_of_entry_tags mset_map)
    then show ?thesis by (simp add: th_of_def comp_def)
  qed
  from ss have "distinct (map Offset ?vs)" by (simp add: strict_sorted_iff)
  with mo have 1: "distinct (map Offset es)"
    by (metis mset_eq_imp_distinct_iff)
  have so': "sorted (map Offset ?vs)" by (rule so)
  have 2: "\<forall>e\<in>set es. Offset e < len"
  proof
    fix e assume "e \<in> set es"
    then have "Offset e \<in> set (map Offset ?vs)"
      using mset_eq_setD [OF mo] by auto
    then have "Offset e \<le> last (map Offset ?vs)"
      using so' by (rule sorted_le_last [rotated])
    also have "last (map Offset ?vs) = Offset (last ?vs)"
      using vne by (simp add: last_map)
    finally show "Offset e < len" using la by simp
  qed
  have 3: "\<forall>e\<in>set es. \<not> misaligned e"
    if "\<exists>e0\<in>set es. 8 dvd unat (Offset e0) \<and> (\<forall>e\<in>set es. Offset e0 \<le> Offset e)"
  proof
    from that obtain e0 where e0: "e0 \<in> set es" "8 dvd unat (Offset e0)"
      and mn: "\<forall>e\<in>set es. Offset e0 \<le> Offset e" by blast
    have sets: "set (map Offset ?vs) = set (map Offset es)"
      using mset_eq_setD [OF mo] .
    have hd: "Offset (hd ?vs) = Offset e0"
    proof (rule antisym)
      have "Offset e0 \<in> set (map Offset ?vs)" using e0 sets by auto
      then have "hd (map Offset ?vs) \<le> Offset e0" using so' by (rule sorted_hd_le [rotated])
      then show "Offset (hd ?vs) \<le> Offset e0" using vne by (simp add: hd_map)
      have "Offset (hd ?vs) \<in> set (map Offset ?vs)" using vne by auto
      then have "Offset (hd ?vs) \<in> Offset ` set es" using sets by auto
      with mn show "Offset e0 \<le> Offset (hd ?vs)" by auto
    qed
    fix e assume e: "e \<in> set es"
    have "mset (map th_of ?vs) = mset es"
      using ms by (metis map_th_of_entry_tags mset_map)
    then have "set (map th_of ?vs) = set es" by (rule mset_eq_setD)
    with e have "e \<in> th_of ` set ?vs" by simp
    then obtain v where v: "v \<in> set ?vs" "th_of v = e" by blast
    from ta v have t: "tagaligned \<lparr>rr = [], roff = roff ?r3 + of_nat (unat (Offset v) - unat (Offset (hd ?vs)))\<rparr> v"
      by blast
    have ov: "Offset v = Offset e" "Type v = Type e"
      using v(2) by (auto simp: th_of_def)
    have "\<not> misaligned v"
    proof -
      have a: "8 dvd unat (roff ?r3)" using x_dvd [OF x] by simp
      have le0: "Offset e0 \<le> Offset v" using mn e ov by simp
      have "tagaligned \<lparr>rr = [], roff = roff ?r3 + of_nat (unat (Offset v) - unat (Offset e0))\<rparr> v"
        using t hd by simp
      with tagaligned_iff [OF a e0(2) le0] show ?thesis by simp
    qed
    then show "\<not> misaligned e"
      using ov by (simp add: misaligned_def)
  qed
  from 1 2 3 show ?thesis by blast
qed

section \<open>A region that is not last in Offset order\<close>










end
